theory Spec2Isabelle
  imports Main
begin

section \<open>JavaScript values\<close>

text \<open>
  The rule pipeline of \<^verbatim>\<open>background.js\<close> works on plain data: the result of
  \<^verbatim>\<open>JSON.parse\<close> and the objects the normalizer builds from it. A value is one of
  the JSON shapes, or \<^verbatim>\<open>undefined\<close> (what reading an absent property gives).
  An object is the list of its own properties in enumeration order
  (\<^verbatim>\<open>Object.entries\<close>); the keys of a parsed object are distinct. Strings are
  lists of characters. Numbers are modelled by the integers: the code only tests a
  number for truthiness and turns it into a string.
\<close>

datatype jsval =
    JUndef
  | JNull
  | JBool bool
  | JNum int
  | JStr string
  | JArr "jsval list"
  | JObj "(string \<times> jsval) list"

text \<open>A thrown value: \<^verbatim>\<open>new Error(msg)\<close> of the code, or a \<^verbatim>\<open>TypeError\<close> of the runtime.\<close>

datatype error = Error string | TypeError string

fun message :: "error \<Rightarrow> string" where
  "message (Error m) = m"
| "message (TypeError m) = m"

text \<open>Truthiness, as \<^verbatim>\<open>!v\<close>, \<^verbatim>\<open>v || w\<close> and \<^verbatim>\<open>v ? a : b\<close> test it.\<close>

fun truthy :: "jsval \<Rightarrow> bool" where
  "truthy JUndef = False"
| "truthy JNull = False"
| "truthy (JBool b) = b"
| "truthy (JNum n) = (n \<noteq> 0)"
| "truthy (JStr s) = (s \<noteq> [])"
| "truthy (JArr _) = True"
| "truthy (JObj _) = True"

text \<open>
  \<^verbatim>\<open>v?.k\<close> for the property names the code reads. None of them exists on a
  primitive or on an array, except \<^verbatim>\<open>entries\<close> on an array, which is a method: the
  code only ever tests that value with \<^verbatim>\<open>Array.isArray\<close>, where a method and
  \<^verbatim>\<open>undefined\<close> behave alike.
\<close>

fun get :: "jsval \<Rightarrow> string \<Rightarrow> jsval" where
  "get (JObj kvs) k = (case map_of kvs k of Some v \<Rightarrow> v | None \<Rightarrow> JUndef)"
| "get _ k = JUndef"

fun isArray :: "jsval \<Rightarrow> bool" where
  "isArray (JArr _) = True"
| "isArray _ = False"

text \<open>\<^verbatim>\<open>ensureArray\<close> and \<^verbatim>\<open>ensureObject\<close>.\<close>

fun ensureArray :: "jsval \<Rightarrow> jsval list" where
  "ensureArray (JArr xs) = xs"
| "ensureArray _ = []"

fun ensureObject :: "jsval \<Rightarrow> jsval" where
  "ensureObject (JObj kvs) = JObj kvs"
| "ensureObject _ = JObj []"

text \<open>\<^verbatim>\<open>v || null\<close>.\<close>

definition or_null :: "jsval \<Rightarrow> jsval" where
  "or_null v = (if truthy v then v else JNull)"

subsection \<open>Strings\<close>

function show_digits :: "int \<Rightarrow> string" where
  "show_digits n =
     (if n < 10 then [char_of (48 + n)]
      else show_digits (n div 10) @ [char_of (48 + n mod 10)])"
  by pat_completeness auto
termination
  by (relation "measure nat") auto

declare show_digits.simps [simp del]

definition show_nat :: "nat \<Rightarrow> string" where
  "show_nat n = show_digits (int n)"

definition show_int :: "int \<Rightarrow> string" where
  "show_int i = (if i < 0 then CHR ''-'' # show_digits (- i) else show_digits i)"

fun join :: "string \<Rightarrow> string list \<Rightarrow> string" where
  "join sep [] = []"
| "join sep [x] = x"
| "join sep (x # y # ys) = x @ sep @ join sep (y # ys)"

text \<open>
  \<^verbatim>\<open>String(v)\<close>, also what a template literal does to a value. A number is
  printed as the digits of the integer, which is what JavaScript prints for the
  integers it represents exactly (up to \<open>2\<^sup>5\<^sup>3\<close>); other numbers are outside the
  model.
\<close>

fun js_String :: "jsval \<Rightarrow> string" where
  "js_String JUndef = ''undefined''"
| "js_String JNull = ''null''"
| "js_String (JBool b) = (if b then ''true'' else ''false'')"
| "js_String (JNum n) = show_int n"
| "js_String (JStr s) = s"
| "js_String (JArr xs) =
     join '','' (map (\<lambda>x. if x = JNull \<or> x = JUndef then [] else js_String x) xs)"
| "js_String (JObj _) = ''[object Object]''"

text \<open>
  \<^verbatim>\<open>String.prototype.trim\<close>: the white space and line terminators among the
  characters of the model.
\<close>

definition is_space :: "char \<Rightarrow> bool" where
  "is_space c = (of_char c \<in> {9, 10, 11, 12, 13, 32, 160 :: nat})"

definition trim :: "string \<Rightarrow> string" where
  "trim s = rev (dropWhile is_space (rev (dropWhile is_space s)))"

subsection \<open>Property order\<close>

text \<open>
  An object enumerates its array-index keys first, in ascending order, then its other
  keys in the order they were created. \<^verbatim>\<open>o[k] = v\<close> keeps the place of a key that
  exists.
\<close>

definition dec_val :: "string \<Rightarrow> int" where
  "dec_val s = foldl (\<lambda>acc c. 10 * acc + (of_char c - 48)) 0 s"

definition is_array_index :: "string \<Rightarrow> bool" where
  "is_array_index s =
     (s \<noteq> [] \<and> list_all (\<lambda>c. 48 \<le> (of_char c :: nat) \<and> (of_char c :: nat) \<le> 57) s
      \<and> (s = ''0'' \<or> hd s \<noteq> CHR ''0'') \<and> dec_val s < 4294967295)"

fun insert_index :: "string \<Rightarrow> 'v \<Rightarrow> (string \<times> 'v) list \<Rightarrow> (string \<times> 'v) list" where
  "insert_index k v [] = [(k, v)]"
| "insert_index k v ((k', v') # kvs) =
     (if is_array_index k' \<and> dec_val k' < dec_val k then (k', v') # insert_index k v kvs
      else (k, v) # (k', v') # kvs)"

definition obj_put :: "string \<Rightarrow> 'v \<Rightarrow> (string \<times> 'v) list \<Rightarrow> (string \<times> 'v) list" where
  "obj_put k v kvs =
     (if k \<in> fst ` set kvs then map (\<lambda>(k', v'). if k' = k then (k', v) else (k', v')) kvs
      else if is_array_index k then insert_index k v kvs
      else kvs @ [(k, v)])"


section \<open>The rule schema normalizer\<close>

text \<open>
  \<^verbatim>\<open>Array.prototype.map\<close> with a callback that may throw: the elements are visited
  in order with their index, and the first exception ends the whole call.
\<close>

fun map_idx :: "('a \<Rightarrow> nat \<Rightarrow> error + 'b) \<Rightarrow> nat \<Rightarrow> 'a list \<Rightarrow> error + 'b list" where
  "map_idx f i [] = Inr []"
| "map_idx f i (x # xs) =
     (case f x i of
        Inl e \<Rightarrow> Inl e
      | Inr y \<Rightarrow> (case map_idx f (Suc i) xs of Inl e \<Rightarrow> Inl e | Inr ys \<Rightarrow> Inr (y # ys)))"

text \<open>\<^verbatim>\<open>typeof v === 'string' ? v.trim() : null\<close> and \<^verbatim>\<open>typeof v === 'string' ? v : null\<close>.\<close>

fun trimmed_or_null :: "jsval \<Rightarrow> jsval" where
  "trimmed_or_null (JStr s) = JStr (trim s)"
| "trimmed_or_null _ = JNull"

fun string_or_null :: "jsval \<Rightarrow> jsval" where
  "string_or_null (JStr s) = JStr s"
| "string_or_null _ = JNull"

text \<open>\<^verbatim>\<open>v ? String(v) : null\<close>.\<close>

definition String_or_null :: "jsval \<Rightarrow> jsval" where
  "String_or_null v = (if truthy v then JStr (js_String v) else JNull)"

text \<open>\<^verbatim>\<open>typeof entry?.selector === 'string' ? entry.selector.trim() : ''\<close>.\<close>

definition selector_of :: "jsval \<Rightarrow> string" where
  "selector_of entry = (case get entry ''selector'' of JStr s \<Rightarrow> trim s | _ \<Rightarrow> [])"

text \<open>
  \<^verbatim>\<open>normalizeDomEntry(entry, { category, index, locale })\<close>. The locale option is a
  string or \<^verbatim>\<open>null\<close> (\<open>None\<close>).
\<close>

definition normalizeDomEntry :: "jsval \<Rightarrow> string \<Rightarrow> nat \<Rightarrow> string option \<Rightarrow> error + jsval" where
  "normalizeDomEntry entry category index locale =
     (let selector = selector_of entry in
      if selector = [] then
        Inl (Error (''Missing selector in '' @ category @ '' entry at index '' @ show_nat index))
      else
        let fp = get entry ''fallbackPatterns'';
            fallbackPatterns =
              (if truthy fp
               then JObj [(''id'', String_or_null (get fp ''id'')),
                          (''class'', String_or_null (get fp ''class''))]
               else JNull)
        in Inr (JObj
          [(''id'', if truthy (get entry ''id'') then JStr (js_String (get entry ''id''))
                    else JStr (category @ ''-'' @ show_nat index)),
           (''site'', or_null (get entry ''site'')),
           (''feature'', or_null (get entry ''feature'')),
           (''url'', or_null (get entry ''url'')),
           (''selector'', JStr selector),
           (''cssPath'', trimmed_or_null (get entry ''cssPath'')),
           (''jsPath'', trimmed_or_null (get entry ''jsPath'')),
           (''outerHTML'', string_or_null (get entry ''outerHTML'')),
           (''text'', string_or_null (get entry ''text'')),
           (''textContains'', string_or_null (get entry ''textContains'')),
           (''fallbackPatterns'', fallbackPatterns),
           (''fingerprints'', ensureObject (get entry ''fingerprints'')),
           (''notes'', string_or_null (get entry ''notes'')),
           (''category'', or_null (get entry ''category'')),
           (''locale'', (case locale of
                           Some l \<Rightarrow> if l \<noteq> [] then JStr l else or_null (get entry ''locale'')
                         | None \<Rightarrow> or_null (get entry ''locale'')))]))"

text \<open>
  The inner function \<^verbatim>\<open>registerLocale\<close> of \<^verbatim>\<open>normalizeLanguageBuckets\<close>: the
  \<^verbatim>\<open>locales\<close> object it writes to is passed and returned.
\<close>

definition registerLocale ::
  "string \<Rightarrow> (string \<times> jsval) list \<Rightarrow> string \<Rightarrow> jsval \<Rightarrow> jsval \<Rightarrow> error + (string \<times> jsval) list" where
  "registerLocale namespace locales localeKey title entries =
     (case map_idx (\<lambda>entry entryIndex.
               normalizeDomEntry entry (namespace @ ''.'' @ localeKey) entryIndex (Some localeKey))
             0 (ensureArray entries) of
        Inl e \<Rightarrow> Inl e
      | Inr normalizedEntries \<Rightarrow>
          Inr (obj_put localeKey
                 (JObj [(''title'', or_null title), (''entries'', JArr normalizedEntries)]) locales))"

text \<open>
  \<^verbatim>\<open>(section.locale || `SECTION_${index}`).toUpperCase()\<close>: a truthy locale that is
  not a string has no such method. \<open>up\<close> is the platform's \<^verbatim>\<open>toUpperCase\<close>; a
  string in upper case is never \<^verbatim>\<open>__proto__\<close>, so \<^verbatim>\<open>locales[localeKey] = ...\<close>
  always creates or replaces a property.
\<close>

definition section_key :: "(string \<Rightarrow> string) \<Rightarrow> jsval \<Rightarrow> nat \<Rightarrow> error + string" where
  "section_key up section index =
     (let l = get section ''locale'' in
      if truthy l then
        (case l of
           JStr s \<Rightarrow> Inr (up s)
         | _ \<Rightarrow> Inl (TypeError ''toUpperCase is not a function''))
      else Inr (up (''SECTION_'' @ show_nat index)))"

text \<open>The \<^verbatim>\<open>forEach\<close> over an array of sections.\<close>

fun register_sections ::
  "(string \<Rightarrow> string) \<Rightarrow> string \<Rightarrow> nat \<Rightarrow> jsval list \<Rightarrow> (string \<times> jsval) list
   \<Rightarrow> error + (string \<times> jsval) list" where
  "register_sections up namespace index [] locales = Inr locales"
| "register_sections up namespace index (section # rest) locales =
     (case section_key up section index of
        Inl e \<Rightarrow> Inl e
      | Inr localeKey \<Rightarrow>
          (case registerLocale namespace locales localeKey
                  (or_null (get section ''title'')) (get section ''entries'') of
             Inl e \<Rightarrow> Inl e
           | Inr locales' \<Rightarrow> register_sections up namespace (Suc index) rest locales'))"

text \<open>The \<^verbatim>\<open>forEach\<close> over \<^verbatim>\<open>Object.entries(rawSection)\<close>.\<close>

fun register_object ::
  "(string \<Rightarrow> string) \<Rightarrow> string \<Rightarrow> (string \<times> jsval) list \<Rightarrow> (string \<times> jsval) list
   \<Rightarrow> error + (string \<times> jsval) list" where
  "register_object up namespace [] locales = Inr locales"
| "register_object up namespace ((locale, data) # rest) locales =
     (case (if isArray (get data ''entries'')
            then registerLocale namespace locales (up locale)
                   (or_null (get data ''title'')) (get data ''entries'')
            else registerLocale namespace locales (up locale) JNull data) of
        Inl e \<Rightarrow> Inl e
      | Inr locales' \<Rightarrow> register_object up namespace rest locales')"

fun looksLikeSection :: "jsval \<Rightarrow> bool" where
  "looksLikeSection (JObj kvs) = isArray (get (JObj kvs) ''entries'')"
| "looksLikeSection _ = False"

text \<open>\<^verbatim>\<open>Object.values(locales).flatMap(bucket => bucket.entries)\<close>.\<close>

definition combine :: "string \<Rightarrow> (string \<times> jsval) list \<Rightarrow> jsval list" where
  "combine field locales = concat (map (\<lambda>(k, bucket). ensureArray (get bucket field)) locales)"

definition buckets :: "string \<Rightarrow> (string \<times> jsval) list \<Rightarrow> jsval" where
  "buckets field locales = JObj [(''locales'', JObj locales), (''combined'', JArr (combine field locales))]"

definition normalizeLanguageBuckets :: "(string \<Rightarrow> string) \<Rightarrow> jsval \<Rightarrow> string \<Rightarrow> error + jsval" where
  "normalizeLanguageBuckets up rawSection namespace =
     (if \<not> truthy rawSection then Inr (buckets ''entries'' [])
      else
        map_sum id (buckets ''entries'')
          (case rawSection of
             JArr sections \<Rightarrow>
               if list_all looksLikeSection sections
               then register_sections up namespace 0 sections []
               else registerLocale namespace [] ''GLOBAL'' JNull rawSection
           | JObj kvs \<Rightarrow> register_object up namespace kvs []
           | _ \<Rightarrow> Inr []))"

text \<open>
  \<^verbatim>\<open>normalizePreserveListEntries\<close>. It calls \<^verbatim>\<open>log\<close> for every element it skips,
  so the model returns the logged lines with the result. Reading
  \<^verbatim>\<open>localeGroup.locale\<close> of a group that is \<^verbatim>\<open>null\<close> throws.
\<close>

definition normalizePreserveEntry :: "jsval \<Rightarrow> string \<Rightarrow> nat \<Rightarrow> jsval" where
  "normalizePreserveEntry entry localeKey entryIndex =
     JObj
       [(''id'', if truthy (get entry ''id'') then JStr (js_String (get entry ''id''))
                 else JStr (''preserve-'' @ localeKey @ ''-'' @ show_nat entryIndex)),
        (''site'', or_null (get entry ''site'')),
        (''feature'', or_null (get entry ''feature'')),
        (''url'', or_null (get entry ''url'')),
        (''selector'', JStr (selector_of entry)),
        (''cssPath'', trimmed_or_null (get entry ''cssPath'')),
        (''jsPath'', trimmed_or_null (get entry ''jsPath'')),
        (''outerHTML'', string_or_null (get entry ''outerHTML'')),
        (''text'', string_or_null (get entry ''text'')),
        (''textContains'', string_or_null (get entry ''textContains'')),
        (''fallbackPatterns'', or_null (get entry ''fallbackPatterns'')),
        (''fingerprints'', ensureObject (get entry ''fingerprints'')),
        (''notes'', string_or_null (get entry ''notes'')),
        (''locale'', JStr localeKey)]"

definition skip_message :: "string \<Rightarrow> nat \<Rightarrow> string" where
  "skip_message localeKey entryIndex =
     ''Skipping preserve entry without selector at '' @ localeKey @ ''['' @ show_nat entryIndex @ '']''"

text \<open>\<^verbatim>\<open>elements.map(...).filter(Boolean)\<close>: the logged lines and the entries kept.\<close>

fun preserve_elements :: "string \<Rightarrow> nat \<Rightarrow> jsval list \<Rightarrow> string list \<times> jsval list" where
  "preserve_elements localeKey entryIndex [] = ([], [])"
| "preserve_elements localeKey entryIndex (entry # rest) =
     (let (logs, kept) = preserve_elements localeKey (Suc entryIndex) rest in
      if selector_of entry = [] then (skip_message localeKey entryIndex # logs, kept)
      else (logs, normalizePreserveEntry entry localeKey entryIndex # kept))"

definition group_key :: "(string \<Rightarrow> string) \<Rightarrow> jsval \<Rightarrow> nat \<Rightarrow> error + string" where
  "group_key up localeGroup groupIndex =
     (if localeGroup = JNull \<or> localeGroup = JUndef
      then Inl (TypeError ''Cannot read properties of null or undefined'')
      else section_key up localeGroup groupIndex)"

fun register_groups ::
  "(string \<Rightarrow> string) \<Rightarrow> nat \<Rightarrow> jsval list \<Rightarrow> (string \<times> jsval) list
   \<Rightarrow> string list \<times> (error + (string \<times> jsval) list)" where
  "register_groups up groupIndex [] locales = ([], Inr locales)"
| "register_groups up groupIndex (localeGroup # rest) locales =
     (case group_key up localeGroup groupIndex of
        Inl e \<Rightarrow> ([], Inl e)
      | Inr localeKey \<Rightarrow>
          (let (logs, normalizedElements) =
                 preserve_elements localeKey 0 (ensureArray (get localeGroup ''elements''));
               locales' = obj_put localeKey
                 (JObj [(''title'', or_null (get localeGroup ''title'')),
                        (''elements'', JArr normalizedElements)]) locales;
               (logs', r) = register_groups up (Suc groupIndex) rest locales'
           in (logs @ logs', r)))"

definition normalizePreserveListEntries ::
  "(string \<Rightarrow> string) \<Rightarrow> jsval \<Rightarrow> string list \<times> (error + jsval)" where
  "normalizePreserveListEntries up rawEntries =
     (if \<not> truthy rawEntries \<or> \<not> isArray rawEntries then ([], Inr (buckets ''elements'' []))
      else
        (let (logs, r) = register_groups up 0 (ensureArray rawEntries) []
         in (logs, map_sum id (buckets ''elements'') r)))"

subsection \<open>\<^verbatim>\<open>normalizeRuleData\<close>\<close>

text \<open>
  The five keys of \<^verbatim>\<open>RULE_ENDPOINTS\<close>. \<^verbatim>\<open>ensureCategory\<close> accepts each of them, so
  it has no branch in the model.
\<close>

datatype category = aiTerms | aiWidgetSelectors | cookiePatterns | killList | preserveList

fun category_name :: "category \<Rightarrow> string" where
  "category_name aiTerms = ''aiTerms''"
| "category_name aiWidgetSelectors = ''aiWidgetSelectors''"
| "category_name cookiePatterns = ''cookiePatterns''"
| "category_name killList = ''killList''"
| "category_name preserveList = ''preserveList''"

definition metadata :: "jsval \<Rightarrow> jsval" where
  "metadata rawData =
     JObj [(''version'', if truthy (get rawData ''version'') then get rawData ''version''
                         else JStr ''1.0.0''),
           (''lastUpdated'', or_null (get rawData ''lastUpdated''))]"

definition normalize_cmp :: "jsval \<Rightarrow> jsval" where
  "normalize_cmp cmp =
     JObj [(''name'', if truthy (get cmp ''name'') then get cmp ''name'' else JStr ''Unnamed CMP''),
           (''detect_selectors'', JArr (ensureArray (get cmp ''detect_selectors''))),
           (''reject_selectors'', JArr (ensureArray (get cmp ''reject_selectors''))),
           (''reject_text_patterns'', JArr (ensureArray (get cmp ''reject_text_patterns'')))]"

text \<open>
  The \<^verbatim>\<open>reduce\<close> that builds \<^verbatim>\<open>text_patterns\<close>. The accumulator is an
  ordinary object, so \<^verbatim>\<open>acc[locale] = ...\<close> for the key \<^verbatim>\<open>__proto__\<close> sets its
  prototype to the array and creates no property of its own.
\<close>

definition text_patterns_of :: "jsval \<Rightarrow> jsval" where
  "text_patterns_of textPatternsRaw =
     (case textPatternsRaw of
        JObj kvs \<Rightarrow>
          JObj (foldl (\<lambda>acc (locale, vals).
                         if locale = ''__proto__'' then acc
                         else obj_put locale (JArr (ensureArray vals)) acc) [] kvs)
      | _ \<Rightarrow> JObj [])"

definition normalizeKillList :: "(string \<Rightarrow> string) \<Rightarrow> jsval \<Rightarrow> error + jsval" where
  "normalizeKillList up rawData =
     (case normalizeLanguageBuckets up (get rawData ''ads'') ''killList.ads'' of
        Inl e \<Rightarrow> Inl e
      | Inr ads \<Rightarrow>
     (case normalizeLanguageBuckets up (get rawData ''aiTerms'') ''killList.aiTerms'' of
        Inl e \<Rightarrow> Inl e
      | Inr terms \<Rightarrow>
     (case normalizeLanguageBuckets up (get rawData ''aiWidgets'') ''killList.aiWidgets'' of
        Inl e \<Rightarrow> Inl e
      | Inr widgets \<Rightarrow>
     (case normalizeLanguageBuckets up (get rawData ''cookies'') ''killList.cookies'' of
        Inl e \<Rightarrow> Inl e
      | Inr cookies \<Rightarrow>
          Inr (JObj [(''metadata'', metadata rawData),
                     (''locales'', JArr (ensureArray (get rawData ''locales''))),
                     (''ads'', ads),
                     (''aiTerms'', terms),
                     (''aiWidgets'', widgets),
                     (''cookies'', cookies)])))))"

text \<open>
  \<^verbatim>\<open>normalizeRuleData(category, rawData)\<close>: the lines it logs, and the payload or the
  exception.
\<close>

fun normalizeRuleData ::
  "(string \<Rightarrow> string) \<Rightarrow> category \<Rightarrow> jsval \<Rightarrow> string list \<times> (error + jsval)" where
  "normalizeRuleData up aiTerms rawData =
     (let conservative = ensureArray (get rawData ''conservative'');
          aggressive = ensureArray (get rawData ''aggressive'')
      in if length conservative = 0
         then ([], Inl (Error ''aiTerms.conservative must contain at least one entry''))
         else ([], Inr (JObj [(''conservative'', JArr conservative),
                              (''aggressive'', JArr aggressive)])))"
| "normalizeRuleData up aiWidgetSelectors rawData =
     (let selectors = ensureArray (get rawData ''selectors'');
          platforms = ensureObject (get rawData ''platforms'');
          textPatternsRaw = ensureObject (get rawData ''text_patterns'')
      in if length selectors = 0
         then ([], Inl (Error ''aiWidgetSelectors.selectors must contain at least one entry''))
         else ([], Inr (JObj [(''selectors'', JArr selectors),
                              (''platforms'', platforms),
                              (''text_patterns'', text_patterns_of textPatternsRaw)])))"
| "normalizeRuleData up cookiePatterns rawData =
     (let reject_phrases = ensureArray (get rawData ''reject_phrases'');
          excluded_domains = ensureArray (get rawData ''excluded_domains'');
          cmpsRaw = ensureArray (get rawData ''cmps'')
      in if length reject_phrases = 0
         then ([], Inl (Error ''cookiePatterns.reject_phrases must contain at least one entry''))
         else ([], Inr (JObj [(''reject_phrases'', JArr reject_phrases),
                              (''excluded_domains'', JArr excluded_domains),
                              (''cmps'', JArr (map normalize_cmp cmpsRaw))])))"
| "normalizeRuleData up killList rawData = ([], normalizeKillList up rawData)"
| "normalizeRuleData up preserveList rawData =
     (let (logs, r) = normalizePreserveListEntries up (get rawData ''entries'')
      in (logs,
          map_sum id
            (\<lambda>processedEntries.
               JObj [(''metadata'', metadata rawData),
                     (''locales'', JArr (ensureArray (get rawData ''locales''))),
                     (''entries'', processedEntries)]) r))"

text \<open>An instance of \<^verbatim>\<open>toUpperCase\<close> on the letters a to z, for evaluation.\<close>

definition ascii_upper :: "string \<Rightarrow> string" where
  "ascii_upper s =
     map (\<lambda>c. if 97 \<le> (of_char c :: nat) \<and> (of_char c :: nat) \<le> 122
              then char_of ((of_char c :: nat) - 32) else c) s"


section \<open>Platform and state\<close>

text \<open>
  What the service worker calls but does not define is a parameter of the model:
  \<^verbatim>\<open>String.prototype.toUpperCase\<close>, \<^verbatim>\<open>crypto.subtle.digest('SHA-256', ...)\<close> on
  the encoded text (the bytes of the hash), \<^verbatim>\<open>JSON.parse\<close> (the message of the
  syntax error, or the value), \<^verbatim>\<open>JSON.stringify\<close> and \<^verbatim>\<open>chrome.runtime.getURL\<close>.
\<close>

record platform =
  toUpperCase :: "string \<Rightarrow> string"
  subtle_digest :: "string \<Rightarrow> nat list"
  JSON_parse :: "string \<Rightarrow> string + jsval"
  JSON_stringify :: "jsval \<Rightarrow> string"
  getURL :: "string \<Rightarrow> string"

text \<open>
  A rule record. The packaged fallback loader builds records without the fields
  \<^verbatim>\<open>verified\<close> and \<^verbatim>\<open>hash\<close>: \<open>verified\<close> is then \<open>None\<close>. A \<open>hash\<close> of \<open>None\<close>
  is \<^verbatim>\<open>null\<close> or absent.
\<close>

record rule_record =
  category :: category
  data :: jsval
  source :: string
  url :: jsval
  fetchedAt :: int
  lastError :: "string option"
  lastFailureAt :: "int option"
  verified :: "bool option"
  hash :: "string option"

text \<open>The cache entry of the index manifest, \<^verbatim>\<open>{ data, fetchedAt }\<close>.\<close>

record index_cache =
  manifest_data :: jsval
  manifest_fetchedAt :: int

record response =
  status :: nat
  body :: string

definition ok :: "response \<Rightarrow> bool" where
  "ok r = (200 \<le> status r \<and> status r \<le> 299)"

text \<open>
  What \<^verbatim>\<open>fetch\<close> under \<^verbatim>\<open>fetchWithTimeout\<close> does for a URL: a response, no
  response within the timeout (the controller aborts), an abort by the environment,
  or a rejection with another error.
\<close>

datatype net_result = Responds response | TimesOut | EnvAborts | Rejects error

text \<open>
  What a call does besides changing the state, in order: a line given to \<^verbatim>\<open>log\<close>;
  a line and the message of an error given to \<^verbatim>\<open>logError\<close>; a request through
  \<^verbatim>\<open>fetchWithTimeout\<close>, with the value passed as the URL; the \<^verbatim>\<open>fetch\<close> of a
  packaged file; a call of \<^verbatim>\<open>computeSHA256\<close> on a text; a call of \<^verbatim>\<open>JSON.parse\<close>
  on a text; a call of \<^verbatim>\<open>response.json()\<close> on a body; the message
  \<^verbatim>\<open>RULES_UPDATED\<close> sent to the tabs, with its category, source and
  \<^verbatim>\<open>fetchedAt\<close>.
\<close>

datatype event =
    Log string
  | LogError string string
  | Fetch jsval
  | FetchPackaged string
  | Digest string
  | JSONParse string
  | ResponseJson string
  | Broadcast category "string option" int

text \<open>
  The state a call runs in: the two module-level maps, the two kinds of key the code
  keeps in \<^verbatim>\<open>chrome.storage.local\<close> (\<^verbatim>\<open>ruleCache:<category>\<close> and
  \<^verbatim>\<open>ruleCache:index\<close>), the network and the packaged files, and the clock:
  \<^verbatim>\<open>Date.now()\<close> returns \<open>clock w (reads w)\<close> and counts the read. A pending promise is
  given by the outcome it settles with. Calls to \<^verbatim>\<open>chrome.storage\<close> and
  \<^verbatim>\<open>chrome.tabs\<close> are taken to complete without rejecting, and
  \<^verbatim>\<open>cloneData\<close> to return a value equal to its argument. A function on worlds
  describes one call running from its start to its end with no other call of the worker
  taking a turn in between; how calls interleave is the subject of the section on
  concurrent calls.
\<close>

record world =
  inMemoryRuleCache :: "category \<Rightarrow> rule_record option"
  pendingRuleFetches :: "category \<Rightarrow> (error + rule_record) option"
  storage_rules :: "category \<Rightarrow> rule_record option"
  storage_index :: "index_cache option"
  network :: "jsval \<Rightarrow> net_result"
  packaged :: "string \<Rightarrow> error + response"
  clock :: "nat \<Rightarrow> int"
  reads :: nat
  trace :: "event list"

definition emit :: "event list \<Rightarrow> world \<Rightarrow> world" where
  "emit evs w = w\<lparr>trace := trace w @ evs\<rparr>"

definition Date_now :: "world \<Rightarrow> int \<times> world" where
  "Date_now w = (clock w (reads w), w\<lparr>reads := Suc (reads w)\<rparr>)"

text \<open>The events of a call that takes \<open>w\<close> to \<open>w'\<close>.\<close>

definition new_events :: "world \<Rightarrow> world \<Rightarrow> event list" where
  "new_events w w' = drop (length (trace w)) (trace w')"

subsection \<open>Constants\<close>

definition INDEX_MANIFEST_URL :: string where
  "INDEX_MANIFEST_URL = ''https://cdn.jsdelivr.net/gh/kaydinindustries-jpg/blockhub-rules@main/index.json''"

definition INDEX_CACHE_TTL_MS :: int where
  "INDEX_CACHE_TTL_MS = 1000 * 60 * 60 * 1"

definition RULE_CACHE_TTL_MS :: int where
  "RULE_CACHE_TTL_MS = 1000 * 60 * 60 * 6"

definition FALLBACK_RETRY_MS :: int where
  "FALLBACK_RETRY_MS = 1000 * 60 * 15"

definition RULE_FETCH_TIMEOUT_MS :: int where
  "RULE_FETCH_TIMEOUT_MS = 8000"

fun RULE_ENDPOINTS :: "category \<Rightarrow> string" where
  "RULE_ENDPOINTS aiTerms = ''https://cdn.jsdelivr.net/gh/kaydinindustries-jpg/blockhub-rules@main/cdn/v1/ai_terms.json''"
| "RULE_ENDPOINTS aiWidgetSelectors = ''https://cdn.jsdelivr.net/gh/kaydinindustries-jpg/blockhub-rules@main/cdn/v1/ai_widget_selectors.json''"
| "RULE_ENDPOINTS cookiePatterns = ''https://cdn.jsdelivr.net/gh/kaydinindustries-jpg/blockhub-rules@main/cdn/v1/cookie_patterns.json''"
| "RULE_ENDPOINTS killList = ''https://cdn.jsdelivr.net/gh/kaydinindustries-jpg/blockhub-rules@main/cdn/v1/kill_list.json''"
| "RULE_ENDPOINTS preserveList = ''https://cdn.jsdelivr.net/gh/kaydinindustries-jpg/blockhub-rules@main/cdn/v1/preserve_list.json''"

fun FALLBACK_RULE_FILES :: "category \<Rightarrow> string" where
  "FALLBACK_RULE_FILES aiTerms = ''utils/ai_terms.json''"
| "FALLBACK_RULE_FILES aiWidgetSelectors = ''utils/ai_widget_selectors.json''"
| "FALLBACK_RULE_FILES cookiePatterns = ''utils/cookie_patterns.json''"
| "FALLBACK_RULE_FILES killList = ''utils/kill_list.json''"
| "FALLBACK_RULE_FILES preserveList = ''utils/preserve_list.json''"

section \<open>Digest, freshness, storage\<close>

text \<open>
  \<^verbatim>\<open>computeSHA256\<close>: each byte of the digest as two hexadecimal digits
  (\<^verbatim>\<open>b.toString(16).padStart(2, '0')\<close>), joined.
\<close>

definition hex_digit :: "nat \<Rightarrow> char" where
  "hex_digit n = (if n < 10 then char_of (48 + n) else char_of (87 + n))"

fun toString16 :: "nat \<Rightarrow> string" where
  "toString16 n =
     (if n < 16 then [hex_digit n] else toString16 (n div 16) @ [hex_digit (n mod 16)])"

declare toString16.simps [simp del]

definition padStart2 :: "string \<Rightarrow> string" where
  "padStart2 s = replicate (2 - length s) CHR ''0'' @ s"

definition computeSHA256 :: "platform \<Rightarrow> string \<Rightarrow> string" where
  "computeSHA256 pf text = concat (map (\<lambda>b. padStart2 (toString16 b)) (subtle_digest pf text))"

text \<open>\<^verbatim>\<open>deepEqual\<close>.\<close>

definition deepEqual :: "platform \<Rightarrow> jsval \<Rightarrow> jsval \<Rightarrow> bool" where
  "deepEqual pf left right = (JSON_stringify pf left = JSON_stringify pf right)"

text \<open>
  \<^verbatim>\<open>isRecordFresh(record)\<close>, with the value of \<^verbatim>\<open>Date.now()\<close> as an argument. The
  clock is read only for a record that has a \<^verbatim>\<open>fetchedAt\<close>.
\<close>

definition isRecordFresh :: "int \<Rightarrow> rule_record option \<Rightarrow> bool" where
  "isRecordFresh now record =
     (case record of
        None \<Rightarrow> False
      | Some r \<Rightarrow>
          if fetchedAt r = 0 then False
          else
            (let age = now - fetchedAt r;
                 ttl = (if source r = ''cdn'' then RULE_CACHE_TTL_MS else FALLBACK_RETRY_MS)
             in age < ttl))"

definition check_fresh :: "world \<Rightarrow> rule_record option \<Rightarrow> bool \<times> world" where
  "check_fresh w record =
     (case record of
        None \<Rightarrow> (False, w)
      | Some r \<Rightarrow>
          if fetchedAt r = 0 then (False, w)
          else (let (now, w') = Date_now w in (isRecordFresh now record, w')))"

text \<open>\<^verbatim>\<open>saveRuleToStorage\<close> and \<^verbatim>\<open>loadRuleFromStorage\<close>.\<close>

definition saveRuleToStorage :: "category \<Rightarrow> rule_record \<Rightarrow> world \<Rightarrow> world" where
  "saveRuleToStorage c record w = w\<lparr>storage_rules := (storage_rules w)(c \<mapsto> record)\<rparr>"

definition loadRuleFromStorage :: "platform \<Rightarrow> category \<Rightarrow> world \<Rightarrow> world \<times> rule_record option" where
  "loadRuleFromStorage pf c w =
     (case storage_rules w c of
        None \<Rightarrow> (w, None)
      | Some record \<Rightarrow>
          if \<not> truthy (data record) then (w, None)
          else
            (case normalizeRuleData (toUpperCase pf) c (data record) of
               (logs, Inr normalized) \<Rightarrow>
                 (emit (map Log logs) w, Some (record\<lparr>category := c, data := normalized\<rparr>))
             | (logs, Inl e) \<Rightarrow>
                 ((emit (map Log logs @
                         [LogError (''Cached rule invalid for '' @ category_name c @ '', clearing storage copy'')
                            (message e)]) w)
                    \<lparr>storage_rules := (storage_rules w)(c := None)\<rparr>,
                  None)))"

section \<open>Fetching\<close>

text \<open>\<^verbatim>\<open>fetchWithTimeout(url)\<close> with the default timeout.\<close>

definition fetchWithTimeout :: "jsval \<Rightarrow> world \<Rightarrow> world \<times> (error + response)" where
  "fetchWithTimeout u w =
     (emit [Fetch u] w,
      case network w u of
        Responds r \<Rightarrow> Inr r
      | TimesOut \<Rightarrow>
          Inl (Error (''Request to '' @ js_String u @ '' timed out after ''
                      @ show_int RULE_FETCH_TIMEOUT_MS @ ''ms''))
      | EnvAborts \<Rightarrow>
          Inl (Error (''Request to '' @ js_String u @ '' was aborted by the environment''))
      | Rejects e \<Rightarrow> Inl e)"

text \<open>
  The part of \<^verbatim>\<open>fetchIndexManifest\<close> between the request and the write to the
  cache: the status check, \<^verbatim>\<open>response.json()\<close> and the structure check. Reading
  \<^verbatim>\<open>manifest.files\<close> of \<^verbatim>\<open>null\<close> throws.
\<close>

definition is_object_type :: "jsval \<Rightarrow> bool" where
  "is_object_type v = (case v of JObj _ \<Rightarrow> True | JArr _ \<Rightarrow> True | JNull \<Rightarrow> True | _ \<Rightarrow> False)"

definition read_manifest :: "platform \<Rightarrow> response \<Rightarrow> world \<Rightarrow> world \<times> (error + jsval)" where
  "read_manifest pf r w =
     (if \<not> ok r then
        (w, Inl (Error (''Index manifest fetch failed: HTTP '' @ show_nat (status r))))
      else
        (case JSON_parse pf (body r) of
           Inl m \<Rightarrow> (emit [ResponseJson (body r)] w, Inl (Error m))
         | Inr manifest \<Rightarrow>
             (emit [ResponseJson (body r)] w,
              if manifest = JNull \<or> manifest = JUndef
              then Inl (TypeError ''Cannot read properties of null'')
              else if \<not> truthy (get manifest ''files'') \<or> \<not> is_object_type (get manifest ''files'')
              then Inl (Error ''Invalid manifest structure: missing files object'')
              else Inr manifest)))"

text \<open>
  \<^verbatim>\<open>fetchIndexManifest\<close>. Its \<^verbatim>\<open>catch\<close> turns every exception into the value
  \<^verbatim>\<open>null\<close>.
\<close>

definition fetchIndexManifest :: "platform \<Rightarrow> world \<Rightarrow> world \<times> jsval" where
  "fetchIndexManifest pf w =
     (let (hit, w1) =
            (case storage_index w of
               None \<Rightarrow> (None, w)
             | Some cached \<Rightarrow>
                 (let (now, w') = Date_now w in
                  if now - manifest_fetchedAt cached < INDEX_CACHE_TTL_MS
                  then (Some (manifest_data cached), w') else (None, w')))
      in case hit of
           Some d \<Rightarrow> (emit [Log ''Using cached index manifest''] w1, d)
         | None \<Rightarrow>
             (let (w2, fetched) =
                    fetchWithTimeout (JStr INDEX_MANIFEST_URL)
                      (emit [Log ''Fetching index manifest from CDN...''] w1);
                  (w3, r) = (case fetched of
                               Inl e \<Rightarrow> (w2, Inl e)
                             | Inr resp \<Rightarrow> read_manifest pf resp w2)
              in case r of
                   Inl e \<Rightarrow>
                     (emit [LogError ''Failed to fetch index manifest, will use fallback URLs''
                              (message e)] w3,
                      JNull)
                 | Inr manifest \<Rightarrow>
                     (let (now, w4) = Date_now w3 in
                      (emit [Log (''Index manifest fetched (version ''
                                  @ (if truthy (get manifest ''version'')
                                     then js_String (get manifest ''version'') else ''unknown'')
                                  @ '')'')]
                         (w4\<lparr>storage_index :=
                               Some \<lparr>manifest_data = manifest, manifest_fetchedAt = now\<rparr>\<rparr>),
                       manifest))))"

text \<open>The message of the integrity error of \<^verbatim>\<open>fetchRuleFromCdn\<close>.\<close>

definition integrity_message :: "category \<Rightarrow> string \<Rightarrow> string \<Rightarrow> string" where
  "integrity_message c expectedHash actualHash =
     ''Integrity check FAILED for '' @ category_name c @ '':'' @ [CHR 0x0A]
     @ ''  Expected: '' @ take 32 expectedHash @ ''...'' @ [CHR 0x0A]
     @ ''  Got:      '' @ take 32 actualHash @ ''...''"

text \<open>
  The body of the \<^verbatim>\<open>try\<close> of \<^verbatim>\<open>fetchRuleFromCdn\<close>, in its order: the request, the
  status, the text, the digest when \<^verbatim>\<open>expectedHash\<close> is truthy, \<^verbatim>\<open>JSON.parse\<close>,
  the normalizer, the record. (The line logged after a successful check starts with a
  check mark in the source, which is not a character of the model.)
\<close>

definition cdn_attempt ::
  "platform \<Rightarrow> category \<Rightarrow> jsval \<Rightarrow> string option \<Rightarrow> world \<Rightarrow> world \<times> (error + rule_record)" where
  "cdn_attempt pf c u expectedHash w =
     (let (w1, fetched) = fetchWithTimeout u w in
      case fetched of
        Inl e \<Rightarrow> (w1, Inl e)
      | Inr resp \<Rightarrow>
          if \<not> ok resp then
            (w1, Inl (Error (''CDN responded with HTTP '' @ show_nat (status resp))))
          else
            (let rawText = body resp;
                 (w2, mismatch) =
                   (case expectedHash of
                      None \<Rightarrow> (w1, None)
                    | Some h \<Rightarrow>
                        if h = [] then (w1, None)
                        else
                          (let actualHash = computeSHA256 pf rawText in
                           if actualHash \<noteq> h
                           then (emit [Digest rawText] w1,
                                 Some (Error (integrity_message c h actualHash)))
                           else (emit [Digest rawText,
                                       Log (''Integrity verified for '' @ category_name c)] w1,
                                 None)))
             in case mismatch of
                  Some e \<Rightarrow> (w2, Inl e)
                | None \<Rightarrow>
                    (case JSON_parse pf rawText of
                       Inl m \<Rightarrow>
                         (emit [JSONParse rawText] w2,
                          Inl (Error (''Invalid JSON received from CDN: '' @ m)))
                     | Inr json \<Rightarrow>
                         (case normalizeRuleData (toUpperCase pf) c json of
                            (logs, Inl e) \<Rightarrow> (emit (JSONParse rawText # map Log logs) w2, Inl e)
                          | (logs, Inr normalized) \<Rightarrow>
                              (let (now, w3) = Date_now (emit (JSONParse rawText # map Log logs) w2)
                               in (w3,
                                   Inr \<lparr>category = c, data = normalized, source = ''cdn'',
                                        url = u, fetchedAt = now, lastError = None,
                                        lastFailureAt = None,
                                        verified = Some (expectedHash \<noteq> None),
                                        hash = expectedHash\<rparr>))))))"

text \<open>
  \<^verbatim>\<open>fetchRuleFromCdn\<close>. With an entry for the category in the manifest, the URL and
  the expected hash are the entry's; \<^verbatim>\<open>expectedHash.substring\<close> throws, outside the
  \<^verbatim>\<open>try\<close>, when the entry's \<^verbatim>\<open>sha256\<close> is not a string. The \<^verbatim>\<open>catch\<close> wraps the
  message of whatever the \<^verbatim>\<open>try\<close> threw.
\<close>

definition fetchRuleFromCdn ::
  "platform \<Rightarrow> category \<Rightarrow> world \<Rightarrow> world \<times> (error + rule_record)" where
  "fetchRuleFromCdn pf c w =
     (let (w1, manifest) = fetchIndexManifest pf w;
          fileInfo = get (get manifest ''files'') (category_name c)
      in if truthy manifest \<and> truthy (get manifest ''files'') \<and> truthy fileInfo then
           (case get fileInfo ''sha256'' of
              JStr expectedHash \<Rightarrow>
                (case cdn_attempt pf c (get fileInfo ''url'') (Some expectedHash)
                        (emit [Log (''Fetching '' @ category_name c @ '' with integrity check (hash: ''
                                    @ take 16 expectedHash @ ''...)'')] w1) of
                   (w2, Inl e) \<Rightarrow>
                     (w2, Inl (Error (''CDN fetch failed for '' @ category_name c @ '': '' @ message e)))
                 | (w2, Inr record) \<Rightarrow> (w2, Inr record))
            | _ \<Rightarrow> (w1, Inl (TypeError ''expectedHash.substring is not a function'')))
         else
           (case cdn_attempt pf c (JStr (RULE_ENDPOINTS c)) None
                   (emit [Log (''Fetching '' @ category_name c
                               @ '' without integrity check (manifest unavailable)'')] w1) of
              (w2, Inl e) \<Rightarrow>
                (w2, Inl (Error (''CDN fetch failed for '' @ category_name c @ '': '' @ message e)))
            | (w2, Inr record) \<Rightarrow> (w2, Inr record)))"

text \<open>\<^verbatim>\<open>loadFallbackRule\<close>: a plain \<^verbatim>\<open>fetch\<close> of the packaged file.\<close>

definition loadFallbackRule ::
  "platform \<Rightarrow> category \<Rightarrow> world \<Rightarrow> world \<times> (error + rule_record)" where
  "loadFallbackRule pf c w =
     (let path = FALLBACK_RULE_FILES c;
          fallbackUrl = getURL pf path;
          w1 = emit [FetchPackaged fallbackUrl] w
      in case packaged w fallbackUrl of
           Inl e \<Rightarrow> (w1, Inl e)
         | Inr resp \<Rightarrow>
             if \<not> ok resp then
               (w1, Inl (Error (''Failed to load fallback from '' @ path @ '' (HTTP ''
                                @ show_nat (status resp) @ '')'')))
             else
               (case JSON_parse pf (body resp) of
                  Inl m \<Rightarrow>
                    (emit [ResponseJson (body resp)] w1,
                     Inl (Error (''Invalid JSON in fallback file '' @ path @ '': '' @ m)))
                | Inr json \<Rightarrow>
                    (case normalizeRuleData (toUpperCase pf) c json of
                       (logs, Inl e) \<Rightarrow> (emit (ResponseJson (body resp) # map Log logs) w1, Inl e)
                     | (logs, Inr normalized) \<Rightarrow>
                         (let (now, w2) = Date_now (emit (ResponseJson (body resp) # map Log logs) w1)
                          in (w2,
                              Inr \<lparr>category = c, data = normalized, source = ''fallback-local'',
                                   url = JStr fallbackUrl, fetchedAt = now, lastError = None,
                                   lastFailureAt = None, verified = None, hash = None\<rparr>)))))"

text \<open>
  \<^verbatim>\<open>broadcastRuleUpdate(category, record)\<close>: one message for all tabs, with
  \<^verbatim>\<open>source || null\<close> and \<^verbatim>\<open>fetchedAt || Date.now()\<close>.
\<close>

definition broadcastRuleUpdate :: "category \<Rightarrow> rule_record \<Rightarrow> world \<Rightarrow> world" where
  "broadcastRuleUpdate c record w =
     (let src = (if source record = [] then None else Some (source record));
          (t, w1) = (if fetchedAt record = 0 then Date_now w else (fetchedAt record, w))
      in emit [Broadcast c src t] w1)"

section \<open>The orchestrator\<close>

text \<open>\<^verbatim>\<open>memoryRecord?.data || storedRecord?.data || null\<close>.\<close>

definition priorData :: "rule_record option \<Rightarrow> rule_record option \<Rightarrow> jsval" where
  "priorData memoryRecord storedRecord =
     (let m = (case memoryRecord of None \<Rightarrow> JUndef | Some r \<Rightarrow> data r);
          s = (case storedRecord of None \<Rightarrow> JUndef | Some r \<Rightarrow> data r)
      in if truthy m then m else if truthy s then s else JNull)"

definition set_memory :: "category \<Rightarrow> rule_record \<Rightarrow> world \<Rightarrow> world" where
  "set_memory c record w = w\<lparr>inMemoryRuleCache := (inMemoryRuleCache w)(c \<mapsto> record)\<rparr>"

text \<open>\<^verbatim>\<open>Object.keys(data || {}).length\<close>, for the line logged after a remote fetch.\<close>

definition entry_count :: "jsval \<Rightarrow> nat" where
  "entry_count d = (case d of JObj kvs \<Rightarrow> length kvs | JArr xs \<Rightarrow> length xs | _ \<Rightarrow> 0)"

text \<open>\<^verbatim>\<open>storedRecord && storedRecord.data\<close>: the stored record, when it has data.\<close>

definition with_data :: "rule_record option \<Rightarrow> rule_record option" where
  "with_data storedRecord =
     (case storedRecord of
        None \<Rightarrow> None
      | Some s \<Rightarrow> if truthy (data s) then Some s else None)"

text \<open>
  The asynchronous function that \<^verbatim>\<open>retrieveRule\<close> starts and registers in
  \<^verbatim>\<open>pendingRuleFetches\<close>: the remote fetch; when it fails, the stored record if
  there is one, else the packaged fallback; when that fails too, the error.
\<close>

definition fetch_operation ::
  "platform \<Rightarrow> category \<Rightarrow> rule_record option \<Rightarrow> rule_record option \<Rightarrow> world
   \<Rightarrow> world \<times> (error + rule_record)" where
  "fetch_operation pf c memoryRecord storedRecord w =
     (let prior = priorData memoryRecord storedRecord in
      case fetchRuleFromCdn pf c w of
        (w1, Inr ruleRecord) \<Rightarrow>
          (let w2 = saveRuleToStorage c ruleRecord (set_memory c ruleRecord w1);
               w3 = (if \<not> truthy prior \<or> \<not> deepEqual pf prior (data ruleRecord)
                     then broadcastRuleUpdate c ruleRecord w2 else w2)
           in (emit [Log (''Rules loaded from CDN for '' @ category_name c @ '' (''
                          @ show_nat (entry_count (data ruleRecord)) @ '' entries)'')] w3,
               Inr ruleRecord))
      | (w1, Inl cdnError) \<Rightarrow>
          (let w2 = emit [LogError (''CDN fetch failed for '' @ category_name c) (message cdnError)] w1
           in case with_data storedRecord of
                Some s \<Rightarrow>
                  (let (now, w3) = Date_now w2;
                       record = s\<lparr>lastError := Some (message cdnError), lastFailureAt := Some now\<rparr>
                   in (saveRuleToStorage c record (set_memory c record w3), Inr record))
              | None \<Rightarrow>
                  (case loadFallbackRule pf c w2 of
                     (w3, Inr fallbackRecord) \<Rightarrow>
                       (let (now, w4) = Date_now w3;
                            record = fallbackRecord\<lparr>lastError := Some (message cdnError),
                                                    lastFailureAt := Some now\<rparr>
                        in (emit [Log (''Using packaged fallback rules for '' @ category_name c)]
                              (saveRuleToStorage c record (set_memory c record w4)),
                            Inr record))
                   | (w3, Inl fallbackError) \<Rightarrow>
                       (emit [LogError (''Fallback load failed for '' @ category_name c)
                                (message fallbackError)] w3,
                        Inl (Error (''No rule data available for '' @ category_name c
                                    @ ''. CDN error: '' @ message cdnError
                                    @ ''. Fallback error: '' @ message fallbackError))))))"

text \<open>
  The first two tests of \<^verbatim>\<open>retrieveRule\<close>: a fresh record in memory, else a fresh
  record in storage (which is then put in memory), is the answer (\<open>Inl\<close>); otherwise the
  call goes on with the memory record and the stored record it has read (\<open>Inr\<close>).
  With \<^verbatim>\<open>forceRefresh\<close> neither freshness test is made.
\<close>

definition cache_lookup ::
  "platform \<Rightarrow> category \<Rightarrow> bool \<Rightarrow> world
   \<Rightarrow> world \<times> (rule_record + rule_record option \<times> rule_record option)" where
  "cache_lookup pf c forceRefresh w =
     (let memoryRecord = inMemoryRuleCache w c;
          (freshMemory, w1) = (if forceRefresh then (False, w) else check_fresh w memoryRecord)
      in case (if freshMemory then memoryRecord else None) of
           Some m \<Rightarrow> (w1, Inl m)
         | None \<Rightarrow>
             (let (w2, storedRecord) = loadRuleFromStorage pf c w1;
                  (freshStored, w3) =
                    (if forceRefresh then (False, w2) else check_fresh w2 storedRecord)
              in case (if freshStored then storedRecord else None) of
                   Some s \<Rightarrow> (set_memory c s w3, Inl s)
                 | None \<Rightarrow> (w3, Inr (memoryRecord, storedRecord))))"

text \<open>
  \<^verbatim>\<open>retrieveRule(category, { forceRefresh })\<close>, run to completion. The value returned
  is a clone of the record. The entry the call puts in \<^verbatim>\<open>pendingRuleFetches\<close> is
  deleted in its \<^verbatim>\<open>finally\<close>.
\<close>

definition retrieveRule ::
  "platform \<Rightarrow> category \<Rightarrow> bool \<Rightarrow> world \<Rightarrow> world \<times> (error + rule_record)" where
  "retrieveRule pf c forceRefresh w =
     (case cache_lookup pf c forceRefresh w of
        (w3, Inl record) \<Rightarrow> (w3, Inr record)
      | (w3, Inr (memoryRecord, storedRecord)) \<Rightarrow>
          (case pendingRuleFetches w3 c of
             Some outcome \<Rightarrow> (w3, outcome)
           | None \<Rightarrow>
               (let (w4, resolved) = fetch_operation pf c memoryRecord storedRecord w3
                in (w4\<lparr>pendingRuleFetches := (pendingRuleFetches w4)(c := None)\<rparr>,
                    resolved))))"

section \<open>Concurrent calls\<close>

text \<open>
  The service worker runs one task at a time, and a task gives up control only at an
  \<^verbatim>\<open>await\<close>. A call of \<^verbatim>\<open>retrieveRule\<close> touches \<^verbatim>\<open>pendingRuleFetches\<close> in
  two stretches of code that contain no \<^verbatim>\<open>await\<close>: from the return of
  \<^verbatim>\<open>loadRuleFromStorage\<close> to its next \<^verbatim>\<open>await\<close> (the test \<^verbatim>\<open>has\<close>, and either
  \<^verbatim>\<open>get\<close>, or the start of the asynchronous function and \<^verbatim>\<open>set\<close>), and the
  \<^verbatim>\<open>finally\<close> with \<^verbatim>\<open>delete\<close>. The model interleaves calls at these points. A
  task is a call suspended at one of its \<^verbatim>\<open>await\<close>s: on
  \<^verbatim>\<open>loadRuleFromStorage\<close>, on the promise it found in the map, or on the promise
  of the operation it started; or it has returned. An operation is the asynchronous
  function started by a call: in flight, or settled (\<open>True\<close> when it resolved, \<open>False\<close>
  when it rejected). Operations are numbered in the order they start.
\<close>

datatype task =
    Loading category bool
  | Joined category nat
  | Owner category nat
  | Returned

datatype op_state = InFlight | Settled bool

record sys =
  pendingMap :: "category \<Rightarrow> nat option"
  ops :: "(category \<times> op_state) list"
  tasks :: "task list"

definition init_sys :: sys where
  "init_sys = \<lparr>pendingMap = (\<lambda>c. None), ops = [], tasks = []\<rparr>"

text \<open>
  What the event loop can run next. \<open>Call c forceRefresh freshMemory\<close>: a new call, with
  what \<^verbatim>\<open>isRecordFresh(memoryRecord)\<close> gives it. \<open>StorageLoaded i freshStored\<close>: task
  \<open>i\<close> resumes from \<^verbatim>\<open>loadRuleFromStorage\<close>, with whether the stored record exists
  and is fresh. \<open>Settle p resolved\<close>: operation \<open>p\<close> settles. \<open>Resume i\<close>: task \<open>i\<close>
  resumes from its wait on a settled promise.
\<close>

datatype action =
    Call category bool bool
  | StorageLoaded nat bool
  | Settle nat bool
  | Resume nat

definition is_settled :: "sys \<Rightarrow> nat \<Rightarrow> bool" where
  "is_settled s p = (p < length (ops s) \<and> snd (ops s ! p) \<noteq> InFlight)"

text \<open>One action; \<open>None\<close> when the state does not allow it.\<close>

fun step :: "action \<Rightarrow> sys \<Rightarrow> sys option" where
  "step (Call c forceRefresh freshMemory) s =
     Some (s\<lparr>tasks := tasks s @ [if \<not> forceRefresh \<and> freshMemory then Returned
                                  else Loading c forceRefresh]\<rparr>)"
| "step (StorageLoaded i freshStored) s =
     (if i < length (tasks s) then
        (case tasks s ! i of
           Loading c forceRefresh \<Rightarrow>
             if \<not> forceRefresh \<and> freshStored then Some (s\<lparr>tasks := (tasks s)[i := Returned]\<rparr>)
             else
               (case pendingMap s c of
                  Some p \<Rightarrow> Some (s\<lparr>tasks := (tasks s)[i := Joined c p]\<rparr>)
                | None \<Rightarrow>
                    (let p = length (ops s) in
                     Some (s\<lparr>ops := ops s @ [(c, InFlight)],
                             pendingMap := (pendingMap s)(c \<mapsto> p),
                             tasks := (tasks s)[i := Owner c p]\<rparr>)))
         | _ \<Rightarrow> None)
      else None)"
| "step (Settle p resolved) s =
     (if p < length (ops s) \<and> snd (ops s ! p) = InFlight
      then Some (s\<lparr>ops := (ops s)[p := (fst (ops s ! p), Settled resolved)]\<rparr>)
      else None)"
| "step (Resume i) s =
     (if i < length (tasks s) then
        (case tasks s ! i of
           Owner c p \<Rightarrow>
             if is_settled s p
             then Some (s\<lparr>pendingMap := (pendingMap s)(c := None),
                          tasks := (tasks s)[i := Returned]\<rparr>)
             else None
         | Joined c p \<Rightarrow>
             if is_settled s p then Some (s\<lparr>tasks := (tasks s)[i := Returned]\<rparr>) else None
         | _ \<Rightarrow> None)
      else None)"

fun run :: "action list \<Rightarrow> sys \<Rightarrow> sys option" where
  "run [] s = Some s"
| "run (a # as) s = (case step a s of None \<Rightarrow> None | Some s' \<Rightarrow> run as s')"

text \<open>The operations for a category that are in flight, and all those started.\<close>

definition in_flight :: "sys \<Rightarrow> category \<Rightarrow> nat list" where
  "in_flight s c = filter (\<lambda>p. ops s ! p = (c, InFlight)) [0 ..< length (ops s)]"

definition started :: "sys \<Rightarrow> category \<Rightarrow> nat" where
  "started s c = length (filter (\<lambda>x. fst x = c) (ops s))"

text \<open>
  What holds of the in-flight map in every state the calls can reach: an operation in
  flight is the one its category maps to; a task waiting on the operation it started
  finds that operation in the map; and no category has two such tasks.
\<close>

definition map_inv :: "sys \<Rightarrow> bool" where
  "map_inv s =
     ((\<forall>p c. p < length (ops s) \<and> ops s ! p = (c, InFlight) \<longrightarrow> pendingMap s c = Some p)
      \<and> (\<forall>i c p. i < length (tasks s) \<and> tasks s ! i = Owner c p \<longrightarrow> pendingMap s c = Some p)
      \<and> (\<forall>i j c p q. i < length (tasks s) \<and> j < length (tasks s)
            \<and> tasks s ! i = Owner c p \<and> tasks s ! j = Owner c q \<longrightarrow> i = j))"

text \<open>
  Two calls for the kill list, neither finding a fresh record: both are made, both
  come back from storage, the operation resolves, both calls resume.
\<close>

definition two_calls :: "action list" where
  "two_calls =
     [Call killList False False, Call killList False False,
      StorageLoaded 0 False, StorageLoaded 1 False, Settle 0 True, Resume 0, Resume 1]"

text \<open>
  The same two calls, the second one coming back from storage only after the operation
  of the first has rejected and the first call has removed the entry.
\<close>

definition late_call :: "action list" where
  "late_call =
     [Call killList False False, Call killList False False,
      StorageLoaded 0 False, Settle 0 False, Resume 0, StorageLoaded 1 False]"

section \<open>A platform and worlds for evaluation\<close>

text \<open>
  A platform given by tables: the texts it can parse with their values, and the
  digest bytes of some texts (any other text has the digest \<open>[0, 255]\<close>). Its
  \<^verbatim>\<open>JSON.stringify\<close> writes a value without escapes.
\<close>

fun stringify :: "jsval \<Rightarrow> string" where
  "stringify JUndef = ''null''"
| "stringify JNull = ''null''"
| "stringify (JBool b) = (if b then ''true'' else ''false'')"
| "stringify (JNum n) = show_int n"
| "stringify (JStr s) = [CHR 0x22] @ s @ [CHR 0x22]"
| "stringify (JArr xs) = ''['' @ join '','' (map stringify xs) @ '']''"
| "stringify (JObj kvs) =
     ''{'' @ join '','' (map (\<lambda>(k, v). [CHR 0x22] @ k @ [CHR 0x22] @ '':'' @ stringify v) kvs) @ ''}''"

definition table_platform :: "(string \<times> jsval) list \<Rightarrow> (string \<times> nat list) list \<Rightarrow> platform" where
  "table_platform texts digests =
     \<lparr>toUpperCase = ascii_upper,
      subtle_digest = (\<lambda>t. case map_of digests t of Some bs \<Rightarrow> bs | None \<Rightarrow> [0, 255]),
      JSON_parse = (\<lambda>t. case map_of texts t of Some v \<Rightarrow> Inr v | None \<Rightarrow> Inl ''Unexpected token''),
      JSON_stringify = stringify,
      getURL = (\<lambda>path. ''chrome-extension://blockhub/'' @ path)\<rparr>"

text \<open>
  A world with empty caches and empty storage, whose network answers the listed URLs
  with status 200 and the listed text and rejects every other request, whose packaged
  files are the listed ones, and whose clock shows \<open>t\<close> at every read.
\<close>

definition table_world :: "(string \<times> string) list \<Rightarrow> (string \<times> string) list \<Rightarrow> int \<Rightarrow> world" where
  "table_world net files t =
     \<lparr>inMemoryRuleCache = (\<lambda>c. None),
      pendingRuleFetches = (\<lambda>c. None),
      storage_rules = (\<lambda>c. None),
      storage_index = None,
      network = (\<lambda>u. case u of
                        JStr a \<Rightarrow> (case map_of net a of
                                      Some text \<Rightarrow> Responds \<lparr>status = 200, body = text\<rparr>
                                    | None \<Rightarrow> Rejects (TypeError ''Failed to fetch''))
                      | _ \<Rightarrow> Rejects (TypeError ''Failed to fetch'')),
      packaged = (\<lambda>a. case map_of files a of
                         Some text \<Rightarrow> Inr \<lparr>status = 200, body = text\<rparr>
                       | None \<Rightarrow> Inl (TypeError ''Failed to fetch'')),
      clock = (\<lambda>n. t),
      reads = 0,
      trace = []\<rparr>"

text \<open>Three rule files and a manifest, as parsed values.\<close>

definition terms_json :: jsval where
  "terms_json = JObj [(''conservative'', JArr [JStr ''artificial intelligence'']),
                      (''aggressive'', JArr [JStr ''AI''])]"

definition preserve_json :: jsval where
  "preserve_json =
     JObj [(''version'', JStr ''2.0.0''),
           (''entries'', JArr [JObj [(''locale'', JStr ''en''),
                                      (''elements'', JArr [JObj [(''selector'', JStr ''#search'')],
                                                          JObj [(''site'', JStr ''example.org'')]])]])]"

definition kill_json :: jsval where
  "kill_json =
     JObj [(''ads'', JObj [(''en'', JArr [JObj [(''selector'', JStr ''.banner'')],
                                           JObj [(''site'', JStr ''example.org'')]])])]"

definition manifest_json :: jsval where
  "manifest_json =
     JObj [(''version'', JStr ''1''),
           (''files'', JObj [(''aiTerms'',
                              JObj [(''url'', JStr ''https://cdn.example/ai_terms.json''),
                                    (''sha256'', JStr ''ab01''),
                                    (''size'', JNum 10)])])]"

definition pf0 :: platform where
  "pf0 = table_platform
           [(''TERMS'', terms_json), (''PRESERVE'', preserve_json), (''KILL'', kill_json),
            (''MANIFEST'', manifest_json)]
           [(''TERMS'', [171, 1])]"

text \<open>
  Three worlds for the category \<^verbatim>\<open>aiTerms\<close>: the manifest and the rule file it
  names are served; the rule file served is not the one the manifest describes; the
  manifest cannot be fetched and the rule file is served at the default URL.
\<close>

definition world_verified :: world where
  "world_verified =
     table_world [(INDEX_MANIFEST_URL, ''MANIFEST''),
                  (''https://cdn.example/ai_terms.json'', ''TERMS'')] [] 1000"

definition world_tampered :: world where
  "world_tampered =
     table_world [(INDEX_MANIFEST_URL, ''MANIFEST''),
                  (''https://cdn.example/ai_terms.json'', ''TAMPERED'')]
                 [(''chrome-extension://blockhub/utils/ai_terms.json'', ''TERMS'')] 1000"

definition world_no_manifest :: world where
  "world_no_manifest =
     table_world [(RULE_ENDPOINTS aiTerms, ''TERMS'')]
                 [(''chrome-extension://blockhub/utils/ai_terms.json'', ''TERMS'')] 1000"

text \<open>
  A world in which nothing can be fetched, the packaged file of \<^verbatim>\<open>aiTerms\<close> is
  there, and storage holds a record of \<^verbatim>\<open>aiTerms\<close> that was fetched long ago.
\<close>

definition old_record :: rule_record where
  "old_record =
     \<lparr>category = aiTerms,
      data = JObj [(''conservative'', JArr [JStr ''chatbot'']), (''aggressive'', JArr [])],
      source = ''cdn'', url = JStr ''https://cdn.example/ai_terms.json'', fetchedAt = 1,
      lastError = None, lastFailureAt = None, verified = Some True, hash = Some ''cd02''\<rparr>"

definition world_offline :: world where
  "world_offline =
     (table_world [] [(''chrome-extension://blockhub/utils/ai_terms.json'', ''TERMS'')] 100000000)
       \<lparr>storage_rules := (\<lambda>c. if c = aiTerms then Some old_record else None)\<rparr>"

text \<open>
  A world that serves the preserve list at its default URL, and the state of a worker
  that starts again: the two maps of the module are empty, storage is as it was.
\<close>

definition world_preserve :: world where
  "world_preserve = table_world [(RULE_ENDPOINTS preserveList, ''PRESERVE'')] [] 1000"

definition restarted :: "world \<Rightarrow> world" where
  "restarted w = w\<lparr>inMemoryRuleCache := (\<lambda>c. None), pendingRuleFetches := (\<lambda>c. None)\<rparr>"

text \<open>
  The payload \<^verbatim>\<open>normalizeRuleData\<close> makes of \<open>preserve_json\<close>, the empty payload of
  a preserve list, and the worker started again after it has fetched and stored the
  preserve list.
\<close>

definition preserve_entry :: jsval where
  "preserve_entry =
     JObj [(''id'', JStr ''preserve-EN-0''), (''site'', JNull), (''feature'', JNull),
           (''url'', JNull), (''selector'', JStr ''#search''), (''cssPath'', JNull),
           (''jsPath'', JNull), (''outerHTML'', JNull), (''text'', JNull),
           (''textContains'', JNull), (''fallbackPatterns'', JNull),
           (''fingerprints'', JObj []), (''notes'', JNull), (''locale'', JStr ''EN'')]"

definition preserve_payload :: jsval where
  "preserve_payload =
     JObj [(''metadata'', JObj [(''version'', JStr ''2.0.0''), (''lastUpdated'', JNull)]),
           (''locales'', JArr []),
           (''entries'',
            JObj [(''locales'',
                   JObj [(''EN'', JObj [(''title'', JNull),
                                        (''elements'', JArr [preserve_entry])])]),
                  (''combined'', JArr [preserve_entry])])]"

definition empty_preserve_payload :: jsval where
  "empty_preserve_payload =
     JObj [(''metadata'', JObj [(''version'', JStr ''1.0.0''), (''lastUpdated'', JNull)]),
           (''locales'', JArr []),
           (''entries'', JObj [(''locales'', JObj []), (''combined'', JArr [])])]"

definition world_restarted :: world where
  "world_restarted = restarted (fst (retrieveRule pf0 preserveList False world_preserve))"

text \<open>
  The same worker six hours after it has fetched and stored the preserve list, not
  started again, with the network down: memory and storage hold the record, which is
  no longer fresh, and no request succeeds.
\<close>

definition offline_later :: "world \<Rightarrow> world" where
  "offline_later w =
     w\<lparr>network := (\<lambda>u. Rejects (TypeError ''Failed to fetch'')),
       clock := (\<lambda>n. 1000 + RULE_CACHE_TTL_MS)\<rparr>"

definition world_stale :: world where
  "world_stale = offline_later (fst (retrieveRule pf0 preserveList False world_preserve))"

text \<open>
  The worker after it has fetched and stored \<^verbatim>\<open>aiTerms\<close> with a verified digest, and
  the same worker started again.
\<close>

definition world_cached :: world where
  "world_cached = fst (retrieveRule pf0 aiTerms False world_verified)"

definition world_cached_restarted :: world where
  "world_cached_restarted = restarted world_cached"

section \<open>Predicates used in the statements\<close>

text \<open>The record of a result, if it is one.\<close>

definition res_record :: "error + rule_record \<Rightarrow> rule_record option" where
  "res_record res = (case res of Inl e \<Rightarrow> None | Inr r \<Rightarrow> Some r)"

text \<open>Kinds of event.\<close>

definition is_Broadcast :: "event \<Rightarrow> bool" where
  "is_Broadcast e = (case e of Broadcast _ _ _ \<Rightarrow> True | _ \<Rightarrow> False)"

definition is_FetchPackaged :: "event \<Rightarrow> bool" where
  "is_FetchPackaged e = (case e of FetchPackaged _ \<Rightarrow> True | _ \<Rightarrow> False)"

definition is_JSONParse :: "event \<Rightarrow> bool" where
  "is_JSONParse e = (case e of JSONParse _ \<Rightarrow> True | _ \<Rightarrow> False)"

text \<open>The events \<^verbatim>\<open>fetchIndexManifest\<close> can cause.\<close>

definition manifest_event :: "event \<Rightarrow> bool" where
  "manifest_event e =
     (case e of
        Log _ \<Rightarrow> True
      | LogError _ _ \<Rightarrow> True
      | Fetch u \<Rightarrow> u = JStr INDEX_MANIFEST_URL
      | ResponseJson _ \<Rightarrow> True
      | _ \<Rightarrow> False)"

text \<open>
  A call that takes \<open>w\<close> to \<open>w'\<close> leaves the caches, the stored rules, the network, the
  packaged files and the clock as they are, and adds to the trace only events that
  satisfy \<open>P\<close>.
\<close>

definition quiet :: "(event \<Rightarrow> bool) \<Rightarrow> world \<Rightarrow> world \<Rightarrow> bool" where
  "quiet P w w' =
     (network w' = network w \<and> packaged w' = packaged w
      \<and> inMemoryRuleCache w' = inMemoryRuleCache w
      \<and> pendingRuleFetches w' = pendingRuleFetches w
      \<and> storage_rules w' = storage_rules w \<and> clock w' = clock w
      \<and> (\<exists>evs. trace w' = trace w @ evs \<and> list_all P evs))"

text \<open>
  The manifest is not served from its cache: there is no cache entry, or the entry is
  an hour old or older at the next reading of the clock.
\<close>

definition manifest_not_cached :: "world \<Rightarrow> bool" where
  "manifest_not_cached w =
     (case storage_index w of
        None \<Rightarrow> True
      | Some cached \<Rightarrow> INDEX_CACHE_TTL_MS \<le> clock w (reads w) - manifest_fetchedAt cached)"

text \<open>
  The fetch of the manifest fails: the request is rejected, times out or is aborted,
  the status is not a success, the body is not JSON, or the value has no \<^verbatim>\<open>files\<close>
  object.
\<close>

definition manifest_fetch_fails :: "platform \<Rightarrow> world \<Rightarrow> bool" where
  "manifest_fetch_fails pf w =
     (case network w (JStr INDEX_MANIFEST_URL) of
        Responds r \<Rightarrow>
          (if ok r then
             (case JSON_parse pf (body r) of
                Inl m \<Rightarrow> True
              | Inr manifest \<Rightarrow>
                  manifest = JNull \<or> manifest = JUndef
                  \<or> (if truthy (get manifest ''files'')
                      then (case get manifest ''files'' of
                              JObj _ \<Rightarrow> False | JArr _ \<Rightarrow> False | _ \<Rightarrow> True)
                      else True))
           else True)
      | _ \<Rightarrow> True)"

text \<open>
  An entry has no usable selector: its \<^verbatim>\<open>selector\<close> is not a string, or is a string
  of white space only.
\<close>

definition lacks_selector :: "jsval \<Rightarrow> bool" where
  "lacks_selector entry = (case get entry ''selector'' of JStr s \<Rightarrow> trim s = [] | _ \<Rightarrow> True)"

text \<open>
  What becomes of the elements of one group of a preserve list that is registered
  under the key \<open>localeKey\<close>: a line logged for each element without a usable selector,
  with the key and the index of the element; and the elements with a usable selector,
  in their order, each as the normalizer writes it with the index it had in the group.
\<close>

definition skipped_lines :: "string \<Rightarrow> jsval list \<Rightarrow> string list" where
  "skipped_lines localeKey elements =
     map (\<lambda>(entry, i). ''Skipping preserve entry without selector at '' @ localeKey
                         @ ''['' @ show_nat i @ '']'')
       (filter (\<lambda>(entry, i). lacks_selector entry) (zip elements [0 ..< length elements]))"

definition kept_elements :: "string \<Rightarrow> jsval list \<Rightarrow> jsval list" where
  "kept_elements localeKey elements =
     map (\<lambda>(entry, i). normalizePreserveEntry entry localeKey i)
       (filter (\<lambda>(entry, i). \<not> lacks_selector entry) (zip elements [0 ..< length elements]))"

text \<open>
  The lists of entries in one section of a raw kill list (\<^verbatim>\<open>ads\<close>, \<^verbatim>\<open>aiTerms\<close>,
  \<^verbatim>\<open>aiWidgets\<close> or \<^verbatim>\<open>cookies\<close>), each with the key it is registered under, in the
  shapes a section can have: an array of sections, each with its \<^verbatim>\<open>entries\<close>, under
  the key made of its locale or its index; a plain array of entries, under the key
  \<^verbatim>\<open>GLOBAL\<close>; an object that maps a locale to an object with \<^verbatim>\<open>entries\<close> or to an
  array of entries, under the locale in upper case.
\<close>

definition section_lists :: "(string \<Rightarrow> string) \<Rightarrow> jsval \<Rightarrow> (string \<times> jsval list) list" where
  "section_lists up rawSection =
     (if \<not> truthy rawSection then []
      else
        (case rawSection of
           JArr sections \<Rightarrow>
             if list_all looksLikeSection sections
             then map (\<lambda>(section, i).
                         (case section_key up section i of Inr k \<Rightarrow> k | Inl e \<Rightarrow> [],
                          ensureArray (get section ''entries'')))
                    (zip sections [0 ..< length sections])
             else [(''GLOBAL'', sections)]
         | JObj kvs \<Rightarrow>
             map (\<lambda>(locale, d). (up locale,
                                  if isArray (get d ''entries'')
                                  then ensureArray (get d ''entries'')
                                  else ensureArray d)) kvs
         | _ \<Rightarrow> []))"

text \<open>
  A record that is there and has data; and: the payload of the record in storage comes
  back from \<^verbatim>\<open>loadRuleFromStorage\<close> as it is, that is, the normalizer applied to
  it again returns it.
\<close>

definition has_payload :: "rule_record option \<Rightarrow> bool" where
  "has_payload record = (case record of None \<Rightarrow> False | Some r \<Rightarrow> truthy (data r))"

definition loads_unchanged :: "platform \<Rightarrow> category \<Rightarrow> world \<Rightarrow> bool" where
  "loads_unchanged pf c w =
     (case storage_rules w c of
        None \<Rightarrow> True
      | Some s \<Rightarrow>
          if truthy (data s)
          then snd (normalizeRuleData (toUpperCase pf) c (data s)) = Inr (data s)
          else True)"

text \<open>
  A group of a preserve list from which \<^verbatim>\<open>normalizePreserveListEntries\<close> can read a
  key: not \<^verbatim>\<open>null\<close>, and its \<^verbatim>\<open>locale\<close> a string or falsy.
\<close>

definition group_ok :: "jsval \<Rightarrow> bool" where
  "group_ok g =
     (g \<noteq> JNull \<and> g \<noteq> JUndef
      \<and> (case get g ''locale'' of JStr s \<Rightarrow> True | v \<Rightarrow> \<not> truthy v))"

section \<open>Properties of the normalizer\<close>

lemma show_nat_small: "show_nat 0 = ''0''" "show_nat 1 = ''1''" "show_nat (Suc 0) = ''1''"
  by code_simp+

subsection \<open>Objects as lists of properties\<close>

lemma insert_index_keys: "fst ` set (insert_index k v kvs) = insert k (fst ` set kvs)"
proof (induction kvs)
  case Nil
  then show ?case by simp
next
  case (Cons a kvs)
  then show ?case by (cases a) (simp add: insert_commute)
qed

lemma insert_index_distinct:
  "k \<notin> fst ` set kvs \<Longrightarrow> distinct (map fst kvs) \<Longrightarrow> distinct (map fst (insert_index k v kvs))"
proof (induction kvs)
  case Nil
  then show ?case by simp
next
  case (Cons a kvs)
  then show ?case by (cases a) (auto simp: insert_index_keys)
qed

lemma insert_index_map_of:
  "k \<notin> fst ` set kvs \<Longrightarrow> map_of (insert_index k v kvs) x = (if x = k then Some v else map_of kvs x)"
proof (induction kvs arbitrary: x)
  case Nil
  then show ?case by simp
next
  case (Cons a kvs)
  then show ?case by (cases a) auto
qed

lemma update_keys:
  "map fst (map (\<lambda>(k', v'). if k' = k then (k', v) else (k', v')) kvs) = map fst kvs"
  by (induction kvs) (simp_all add: case_prod_beta)

lemma update_map_of:
  "map_of (map (\<lambda>(k', v'). if k' = k then (k', v) else (k', v')) kvs) x
   = (if x = k then (case map_of kvs k of None \<Rightarrow> None | Some y \<Rightarrow> Some v) else map_of kvs x)"
proof (induction kvs arbitrary: x)
  case Nil
  then show ?case by simp
next
  case (Cons a kvs)
  then show ?case by (cases a) auto
qed

lemma append_map_of:
  "k \<notin> fst ` set kvs \<Longrightarrow> map_of (kvs @ [(k, v)]) x = (if x = k then Some v else map_of kvs x)"
proof (induction kvs arbitrary: x)
  case Nil
  then show ?case by simp
next
  case (Cons a kvs)
  then show ?case by (cases a) auto
qed

lemma obj_put_keys: "fst ` set (obj_put k v kvs) = insert k (fst ` set kvs)"
proof -
  have "fst ` set (map (\<lambda>(k', v'). if k' = k then (k', v) else (k', v')) kvs) = fst ` set kvs"
    using update_keys [of k v kvs] by (metis set_map)
  then show ?thesis
    by (simp add: obj_put_def insert_index_keys insert_absorb)
qed

lemma obj_put_distinct: "distinct (map fst kvs) \<Longrightarrow> distinct (map fst (obj_put k v kvs))"
  using update_keys [of k v kvs]
  by (simp add: obj_put_def insert_index_distinct del: map_map)

lemma obj_put_map_of: "map_of (obj_put k v kvs) x = (if x = k then Some v else map_of kvs x)"
proof (cases "k \<in> fst ` set kvs")
  case True
  then obtain y where "map_of kvs k = Some y"
    by (metis map_of_eq_None_iff not_Some_eq)
  with True show ?thesis
    by (simp add: obj_put_def update_map_of)
next
  case False
  then show ?thesis
    by (simp add: obj_put_def insert_index_map_of append_map_of del: map_of_append)
qed



subsection \<open>Entries without a selector\<close>

lemma selector_of_lacks: "(selector_of e = []) = lacks_selector e"
  by (simp add: selector_of_def lacks_selector_def split: jsval.splits)


lemma normalizeDomEntry_lacks:
  "lacks_selector e \<Longrightarrow>
   normalizeDomEntry e cat i loc =
     Inl (Error (''Missing selector in '' @ cat @ '' entry at index '' @ show_nat i))"
  by (simp add: normalizeDomEntry_def selector_of_lacks)

lemma normalizeDomEntry_has:
  "\<not> lacks_selector e \<Longrightarrow> \<exists>y. normalizeDomEntry e cat i loc = Inr y"
  by (simp add: normalizeDomEntry_def Let_def selector_of_lacks)

lemma normalizeDomEntry_Inl:
  "normalizeDomEntry e cat i loc = Inl err \<Longrightarrow>
   lacks_selector e
   \<and> err = Error (''Missing selector in '' @ cat @ '' entry at index '' @ show_nat i)"
  using normalizeDomEntry_has [of e cat i loc]
  by (cases "lacks_selector e") (auto simp: normalizeDomEntry_lacks)

lemma normalizeDomEntry_Inr:
  "normalizeDomEntry e cat i loc = Inr y \<Longrightarrow> \<not> lacks_selector e"
  by (auto simp: normalizeDomEntry_lacks)

lemma map_sum_id_Inl: "(map_sum id f r = Inl err) = (r = Inl err)"
  by (cases r) auto

lemma map_sum_id_Inr: "map_sum id f r = Inr b \<Longrightarrow> \<exists>x. r = Inr x"
  by (cases r) auto

lemma map_idx_Inl:
  "map_idx f k xs = Inl err \<Longrightarrow>
   \<exists>j<length xs. f (xs ! j) (k + j) = Inl err \<and> (\<forall>i<j. \<exists>y. f (xs ! i) (k + i) = Inr y)"
proof (induction xs arbitrary: k)
  case Nil
  then show ?case by simp
next
  case (Cons x xs)
  show ?case
  proof (cases "f x k")
    case (Inl e)
    with Cons.prems have "f ((x # xs) ! 0) (k + 0) = Inl err" by simp
    then show ?thesis by (intro exI [of _ 0]) simp
  next
    case (Inr y)
    with Cons.prems have "map_idx f (Suc k) xs = Inl err"
      by (simp split: sum.splits)
    from Cons.IH [OF this] obtain j where j: "j < length xs" "f (xs ! j) (Suc k + j) = Inl err"
      "\<forall>i<j. \<exists>y. f (xs ! i) (Suc k + i) = Inr y"
      by blast
    have "\<forall>i<Suc j. \<exists>y. f ((x # xs) ! i) (k + i) = Inr y"
    proof (intro allI impI)
      fix i assume "i < Suc j"
      then show "\<exists>y. f ((x # xs) ! i) (k + i) = Inr y"
        using j(3) Inr by (cases i) auto
    qed
    with j(1,2) show ?thesis
      by (intro exI [of _ "Suc j"]) simp
  qed
qed

lemma map_idx_Inr:
  "map_idx f k xs = Inr ys \<Longrightarrow> \<forall>x\<in>set xs. \<exists>i y. f x i = Inr y"
proof (induction xs arbitrary: k ys)
  case Nil
  then show ?case by simp
next
  case (Cons x xs)
  then show ?case
    by (auto split: sum.splits)
qed

lemma registerLocale_Inl:
  assumes "registerLocale ns L key title entries = Inl err"
  shows "\<exists>j<length (ensureArray entries).
           lacks_selector (ensureArray entries ! j)
           \<and> (\<forall>i<j. \<not> lacks_selector (ensureArray entries ! i))
           \<and> err = Error (''Missing selector in '' @ ns @ ''.'' @ key
                          @ '' entry at index '' @ show_nat j)"
proof -
  let ?f = "\<lambda>entry entryIndex. normalizeDomEntry entry (ns @ ''.'' @ key) entryIndex (Some key)"
  from assms have "map_idx ?f 0 (ensureArray entries) = Inl err"
    by (simp add: registerLocale_def split: sum.splits)
  from map_idx_Inl [OF this] obtain j where j: "j < length (ensureArray entries)"
    "?f (ensureArray entries ! j) (0 + j) = Inl err"
    "\<forall>i<j. \<exists>y. ?f (ensureArray entries ! i) (0 + i) = Inr y"
    by blast
  have l: "lacks_selector (ensureArray entries ! j)"
    and e: "err = Error (''Missing selector in '' @ ns @ ''.'' @ key
                          @ '' entry at index '' @ show_nat j)"
    using normalizeDomEntry_Inl [OF j(2)] by simp_all
  have "\<forall>i<j. \<not> lacks_selector (ensureArray entries ! i)"
    using j(3) normalizeDomEntry_Inr by fastforce
  with j(1) l e show ?thesis by blast
qed

lemma registerLocale_Inr:
  assumes "registerLocale ns L key title entries = Inr L'"
  shows "\<forall>e\<in>set (ensureArray entries). \<not> lacks_selector e"
proof -
  let ?f = "\<lambda>entry entryIndex. normalizeDomEntry entry (ns @ ''.'' @ key) entryIndex (Some key)"
  from assms obtain ys where "map_idx ?f 0 (ensureArray entries) = Inr ys"
    by (auto simp: registerLocale_def split: sum.splits)
  from map_idx_Inr [OF this] show ?thesis
    using normalizeDomEntry_Inr by fastforce
qed

lemma register_sections_Inl:
  assumes "register_sections up ns i secs L = Inl err"
  shows "(\<exists>m. err = TypeError m)
         \<or> (\<exists>(key, es)\<in>set (map (\<lambda>(section, n).
                                    (case section_key up section n of Inr k \<Rightarrow> k | Inl e \<Rightarrow> [],
                                     ensureArray (get section ''entries'')))
                               (zip secs [i ..< i + length secs])).
              \<exists>j<length es. lacks_selector (es ! j) \<and> (\<forall>n<j. \<not> lacks_selector (es ! n))
                 \<and> err = Error (''Missing selector in '' @ ns @ ''.'' @ key
                                @ '' entry at index '' @ show_nat j))"
  using assms
proof (induction secs arbitrary: i L)
  case Nil
  then show ?case by simp
next
  case (Cons s secs)
  have upt: "[i ..< i + length (s # secs)] = i # [Suc i ..< Suc i + length secs]"
    by (simp add: upt_rec)
  show ?case
  proof (cases "section_key up s i")
    case (Inl e)
    with Cons.prems have "err = e" by simp
    moreover from Inl have "\<exists>m. e = TypeError m"
      by (auto simp: section_key_def Let_def split: if_splits jsval.splits)
    ultimately show ?thesis by blast
  next
    case (Inr key)
    show ?thesis
    proof (cases "registerLocale ns L key (or_null (get s ''title'')) (get s ''entries'')")
      case (Inl e)
      with Cons.prems Inr have "err = e" by simp
      with registerLocale_Inl [OF Inl] Inr show ?thesis
        unfolding upt by (auto simp del: upt_Suc)
    next
      case (Inr L')
      with Cons.prems \<open>section_key up s i = Inr key\<close>
      have "register_sections up ns (Suc i) secs L' = Inl err" by simp
      from Cons.IH [OF this] show ?thesis
        unfolding upt by (auto simp del: upt_Suc)
    qed
  qed
qed

lemma register_sections_Inr:
  assumes "register_sections up ns i secs L = Inr L'"
  shows "\<forall>s\<in>set secs. \<forall>e\<in>set (ensureArray (get s ''entries'')). \<not> lacks_selector e"
  using assms
proof (induction secs arbitrary: i L)
  case Nil
  then show ?case by simp
next
  case (Cons s secs)
  then show ?case
    by (auto split: sum.splits dest: registerLocale_Inr)
qed

lemma register_object_Inl:
  assumes "register_object up ns kvs L = Inl err"
  shows "\<exists>(key, es)\<in>set (map (\<lambda>(locale, d). (up locale,
                                  if isArray (get d ''entries'')
                                  then ensureArray (get d ''entries'')
                                  else ensureArray d)) kvs).
              \<exists>j<length es. lacks_selector (es ! j) \<and> (\<forall>n<j. \<not> lacks_selector (es ! n))
                 \<and> err = Error (''Missing selector in '' @ ns @ ''.'' @ key
                                @ '' entry at index '' @ show_nat j)"
  using assms
proof (induction kvs arbitrary: L)
  case Nil
  then show ?case by simp
next
  case (Cons kv kvs)
  obtain loc d where kv: "kv = (loc, d)" by (cases kv)
  let ?es = "if isArray (get d ''entries'') then ensureArray (get d ''entries'') else ensureArray d"
  let ?r = "if isArray (get d ''entries'')
            then registerLocale ns L (up loc) (or_null (get d ''title'')) (get d ''entries'')
            else registerLocale ns L (up loc) JNull d"
  show ?case
  proof (cases ?r)
    case (Inl e)
    with Cons.prems kv have "err = e" by simp
    moreover from Inl have "\<exists>j<length ?es. lacks_selector (?es ! j)
          \<and> (\<forall>n<j. \<not> lacks_selector (?es ! n))
          \<and> e = Error (''Missing selector in '' @ ns @ ''.'' @ up loc
                                @ '' entry at index '' @ show_nat j)"
      by (auto dest!: registerLocale_Inl split: if_splits)
    ultimately show ?thesis
      by (auto simp: kv)
  next
    case (Inr L')
    with Cons.prems kv have "register_object up ns kvs L' = Inl err" by simp
    from Cons.IH [OF this] show ?thesis
      by auto
  qed
qed

lemma register_object_Inr:
  assumes "register_object up ns kvs L = Inr L'"
  shows "\<forall>(key, es)\<in>set (map (\<lambda>(locale, d). (up locale,
                                  if isArray (get d ''entries'')
                                  then ensureArray (get d ''entries'')
                                  else ensureArray d)) kvs).
           \<forall>e\<in>set es. \<not> lacks_selector e"
  using assms
proof (induction kvs arbitrary: L)
  case Nil
  then show ?case by simp
next
  case (Cons kv kvs)
  obtain loc d where kv: "kv = (loc, d)" by (cases kv)
  let ?es = "if isArray (get d ''entries'') then ensureArray (get d ''entries'') else ensureArray d"
  let ?r = "if isArray (get d ''entries'')
            then registerLocale ns L (up loc) (or_null (get d ''title'')) (get d ''entries'')
            else registerLocale ns L (up loc) JNull d"
  from Cons.prems kv obtain L1 where r: "?r = Inr L1"
    and rest: "register_object up ns kvs L1 = Inr L'"
    by (auto split: sum.splits if_splits)
  from r have "\<forall>e\<in>set ?es. \<not> lacks_selector e"
    by (auto dest!: registerLocale_Inr split: if_splits)
  with Cons.IH [OF rest] show ?case
    by (simp add: kv)
qed

lemma normalizeLanguageBuckets_Inl:
  assumes "normalizeLanguageBuckets up raw ns = Inl err"
  shows "(\<exists>m. err = TypeError m)
         \<or> (\<exists>(key, es)\<in>set (section_lists up raw).
              \<exists>j<length es. lacks_selector (es ! j) \<and> (\<forall>n<j. \<not> lacks_selector (es ! n))
                 \<and> err = Error (''Missing selector in '' @ ns @ ''.'' @ key
                                @ '' entry at index '' @ show_nat j))"
proof (cases raw)
  case (JArr secs)
  show ?thesis
  proof (cases "list_all looksLikeSection secs")
    case True
    with assms JArr have "register_sections up ns 0 secs [] = Inl err"
      by (simp add: normalizeLanguageBuckets_def map_sum_id_Inl)
    from register_sections_Inl [OF this] True JArr show ?thesis
      by (simp add: section_lists_def)
  next
    case False
    with assms JArr have "registerLocale ns [] ''GLOBAL'' JNull (JArr secs) = Inl err"
      by (simp add: normalizeLanguageBuckets_def map_sum_id_Inl)
    from registerLocale_Inl [OF this] False JArr show ?thesis
      by (simp add: section_lists_def)
  qed
next
  case (JObj kvs)
  with assms have "register_object up ns kvs [] = Inl err"
    by (simp add: normalizeLanguageBuckets_def map_sum_id_Inl)
  from register_object_Inl [OF this] JObj show ?thesis
    by (simp add: section_lists_def)
qed (use assms in \<open>auto simp: normalizeLanguageBuckets_def split: if_splits\<close>)

lemma normalizeLanguageBuckets_Inr:
  assumes "normalizeLanguageBuckets up raw ns = Inr b"
  shows "\<forall>(key, es)\<in>set (section_lists up raw). \<forall>e\<in>set es. \<not> lacks_selector e"
proof (cases raw)
  case (JArr secs)
  show ?thesis
  proof (cases "list_all looksLikeSection secs")
    case True
    with assms JArr obtain L where "register_sections up ns 0 secs [] = Inr L"
      by (auto simp: normalizeLanguageBuckets_def dest: map_sum_id_Inr)
    from register_sections_Inr [OF this] True JArr show ?thesis
      by (auto simp: section_lists_def dest!: set_zip_leftD)
  next
    case False
    with assms JArr obtain L where "registerLocale ns [] ''GLOBAL'' JNull (JArr secs) = Inr L"
      by (auto simp: normalizeLanguageBuckets_def dest: map_sum_id_Inr)
    from registerLocale_Inr [OF this] False JArr show ?thesis
      by (simp add: section_lists_def)
  qed
next
  case (JObj kvs)
  with assms obtain L where "register_object up ns kvs [] = Inr L"
    by (auto simp: normalizeLanguageBuckets_def dest: map_sum_id_Inr)
  from register_object_Inr [OF this] JObj show ?thesis
    by (simp add: section_lists_def)
qed (simp_all add: section_lists_def)

lemma preserve_elements_eq:
  "preserve_elements k i es =
     (map (\<lambda>(e, j). skip_message k j) (filter (\<lambda>(e, j). selector_of e = []) (zip es [i ..< i + length es])),
      map (\<lambda>(e, j). normalizePreserveEntry e k j) (filter (\<lambda>(e, j). selector_of e \<noteq> []) (zip es [i ..< i + length es])))"
proof (induction es arbitrary: i)
  case Nil
  then show ?case by simp
next
  case (Cons e es)
  have "[i ..< i + length (e # es)] = i # [Suc i ..< Suc i + length es]"
    by (simp add: upt_rec)
  then show ?case using Cons.IH [of "Suc i"] by (simp add: Let_def)
qed

lemma preserve_elements_spec:
  "preserve_elements k 0 es = (skipped_lines k es, kept_elements k es)"
  by (simp add: preserve_elements_eq skipped_lines_def kept_elements_def skip_message_def
      selector_of_lacks)

lemma group_key_ok: "group_ok g \<Longrightarrow> \<exists>k. group_key up g i = Inr k"
  by (auto simp: group_ok_def group_key_def section_key_def Let_def split: jsval.splits)

lemma register_groups_spec:
  assumes ok: "\<forall>g\<in>set gs. group_ok g"
  shows "\<exists>L. register_groups up i0 gs L0 =
               (concat (map (\<lambda>(g, i). case group_key up g i of
                                        Inr k \<Rightarrow> skipped_lines k (ensureArray (get g ''elements''))
                                      | Inl e \<Rightarrow> [])
                          (zip gs [i0 ..< i0 + length gs])),
                Inr L)
           \<and> fst ` set L = fst ` set L0
                 \<union> {k. \<exists>n<length gs. group_key up (gs ! n) (i0 + n) = Inr k}
           \<and> (distinct (map fst L0) \<longrightarrow> distinct (map fst L))
           \<and> (\<forall>k. (\<forall>n<length gs. group_key up (gs ! n) (i0 + n) \<noteq> Inr k)
                  \<longrightarrow> map_of L k = map_of L0 k)
           \<and> (\<forall>n k. n < length gs \<and> group_key up (gs ! n) (i0 + n) = Inr k
                    \<and> (\<forall>j<length gs. n < j \<longrightarrow> group_key up (gs ! j) (i0 + j) \<noteq> Inr k)
                  \<longrightarrow> map_of L k =
                        Some (JObj [(''title'', or_null (get (gs ! n) ''title'')),
                                    (''elements'',
                                     JArr (kept_elements k
                                             (ensureArray (get (gs ! n) ''elements''))))]))"
  using ok
proof (induction gs arbitrary: i0 L0)
  case Nil
  then show ?case by simp
next
  case (Cons g gs)
  obtain k0 where k0: "group_key up g i0 = Inr k0"
    using Cons.prems group_key_ok by force
  define es where "es = ensureArray (get g ''elements'')"
  define b0 where
    "b0 = JObj [(''title'', or_null (get g ''title'')), (''elements'', JArr (kept_elements k0 es))]"
  define L1 where "L1 = obj_put k0 b0 L0"
  let ?lines = "\<lambda>i gs. concat (map (\<lambda>(g, i). case group_key up g i of
                                        Inr k \<Rightarrow> skipped_lines k (ensureArray (get g ''elements''))
                                      | Inl e \<Rightarrow> [])
                          (zip gs [i ..< i + length gs]))"
  from Cons.IH [of "Suc i0" L1] Cons.prems obtain L where
    run: "register_groups up (Suc i0) gs L1 = (?lines (Suc i0) gs, Inr L)"
    and keys: "fst ` set L = fst ` set L1
                 \<union> {k. \<exists>n<length gs. group_key up (gs ! n) (Suc i0 + n) = Inr k}"
    and dist: "distinct (map fst L1) \<longrightarrow> distinct (map fst L)"
    and rest: "\<And>k. (\<forall>n<length gs. group_key up (gs ! n) (Suc i0 + n) \<noteq> Inr k)
                  \<Longrightarrow> map_of L k = map_of L1 k"
    and last: "\<And>n k. n < length gs \<Longrightarrow> group_key up (gs ! n) (Suc i0 + n) = Inr k
                    \<Longrightarrow> (\<forall>j<length gs. n < j \<longrightarrow> group_key up (gs ! j) (Suc i0 + j) \<noteq> Inr k)
                  \<Longrightarrow> map_of L k =
                        Some (JObj [(''title'', or_null (get (gs ! n) ''title'')),
                                    (''elements'',
                                     JArr (kept_elements k
                                             (ensureArray (get (gs ! n) ''elements''))))])"
    by (auto simp del: upt_Suc)
  have upt: "[i0 ..< i0 + length (g # gs)] = i0 # [Suc i0 ..< Suc i0 + length gs]"
    by (simp add: upt_rec)
  have a: "register_groups up i0 (g # gs) L0 = (?lines i0 (g # gs), Inr L)"
    unfolding upt
    by (simp add: k0 preserve_elements_spec es_def [symmetric] b0_def [symmetric]
        L1_def [symmetric] run del: upt_Suc)
  have ex: "(\<exists>n<length (g # gs). P n) = (P 0 \<or> (\<exists>n<length gs. P (Suc n)))" for P
    by (auto simp: less_Suc_eq_0_disj)
  have all: "(\<forall>n<length (g # gs). P n) = (P 0 \<and> (\<forall>n<length gs. P (Suc n)))" for P
    by (auto simp: less_Suc_eq_0_disj)
  have b: "fst ` set L = fst ` set L0
             \<union> {k. \<exists>n<length (g # gs). group_key up ((g # gs) ! n) (i0 + n) = Inr k}"
    unfolding keys L1_def obj_put_keys ex
    by (auto simp: k0)
  have c: "distinct (map fst L0) \<longrightarrow> distinct (map fst L)"
    using dist by (simp add: L1_def obj_put_distinct)
  have d: "map_of L k = map_of L0 k"
    if "\<forall>n<length (g # gs). group_key up ((g # gs) ! n) (i0 + n) \<noteq> Inr k" for k
  proof -
    from that have "k \<noteq> k0" and "\<forall>n<length gs. group_key up (gs ! n) (Suc i0 + n) \<noteq> Inr k"
      unfolding all by (auto simp: k0)
    then show ?thesis
      using rest [of k] by (simp add: L1_def obj_put_map_of)
  qed
  have e: "map_of L k =
             Some (JObj [(''title'', or_null (get ((g # gs) ! n) ''title'')),
                         (''elements'',
                          JArr (kept_elements k (ensureArray (get ((g # gs) ! n) ''elements''))))])"
    if n: "n < length (g # gs)" and key: "group_key up ((g # gs) ! n) (i0 + n) = Inr k"
      and later: "\<forall>j<length (g # gs). n < j \<longrightarrow> group_key up ((g # gs) ! j) (i0 + j) \<noteq> Inr k"
    for n k
  proof (cases n)
    case 0
    with key have kk: "k = k0" by (simp add: k0)
    from later 0 have "\<forall>j<length gs. group_key up (gs ! j) (Suc i0 + j) \<noteq> Inr k"
      unfolding all by simp
    then have "map_of L k = map_of L1 k"
      by (rule rest)
    then show ?thesis
      using 0 by (simp add: kk L1_def obj_put_map_of b0_def es_def)
  next
    case (Suc m)
    have l: "\<forall>j<length gs. m < j \<longrightarrow> group_key up (gs ! j) (Suc i0 + j) \<noteq> Inr k"
      using later Suc unfolding all by simp
    from last [of m k] n key l Suc show ?thesis
      by simp
  qed
  from a b c d e show ?case
    by blast
qed

text \<open>
  Claim C5, as stated, fails for the kill list: an input with none of its sections
  raises no error, and the payload has four empty buckets.
\<close>

theorem killList_missing_sections_counterexample:
  "snd (normalizeRuleData ascii_upper killList (JObj [])) =
     Inr (JObj [(''metadata'', JObj [(''version'', JStr ''1.0.0''), (''lastUpdated'', JNull)]),
                (''locales'', JArr []),
                (''ads'', JObj [(''locales'', JObj []), (''combined'', JArr [])]),
                (''aiTerms'', JObj [(''locales'', JObj []), (''combined'', JArr [])]),
                (''aiWidgets'', JObj [(''locales'', JObj []), (''combined'', JArr [])]),
                (''cookies'', JObj [(''locales'', JObj []), (''combined'', JArr [])])])"
  by code_simp

text \<open>
  Claim C5, amended. For \<^verbatim>\<open>aiTerms\<close>, \<^verbatim>\<open>aiWidgetSelectors\<close> and
  \<^verbatim>\<open>cookiePatterns\<close>, \<^verbatim>\<open>normalizeRuleData\<close> fails with the error that names the
  category and its primary field exactly when that field is absent, not an array, or
  an empty array. For \<^verbatim>\<open>preserveList\<close> and \<^verbatim>\<open>killList\<close> an input without the
  primary field raises nothing: the payload is the empty one.
\<close>

theorem primary_field_check:
  "(snd (normalizeRuleData up aiTerms raw)
      = Inl (Error ''aiTerms.conservative must contain at least one entry''))
     = (ensureArray (get raw ''conservative'') = [])
   \<and> (snd (normalizeRuleData up aiWidgetSelectors raw)
      = Inl (Error ''aiWidgetSelectors.selectors must contain at least one entry''))
     = (ensureArray (get raw ''selectors'') = [])
   \<and> (snd (normalizeRuleData up cookiePatterns raw)
      = Inl (Error ''cookiePatterns.reject_phrases must contain at least one entry''))
     = (ensureArray (get raw ''reject_phrases'') = [])
   \<and> (get raw ''entries'' = JUndef \<longrightarrow>
        snd (normalizeRuleData up preserveList raw)
          = Inr (JObj [(''metadata'', metadata raw),
                       (''locales'', JArr (ensureArray (get raw ''locales''))),
                       (''entries'', JObj [(''locales'', JObj []), (''combined'', JArr [])])]))
   \<and> (get raw ''ads'' = JUndef \<and> get raw ''aiTerms'' = JUndef
        \<and> get raw ''aiWidgets'' = JUndef \<and> get raw ''cookies'' = JUndef \<longrightarrow>
        snd (normalizeRuleData up killList raw)
          = Inr (JObj [(''metadata'', metadata raw),
                       (''locales'', JArr (ensureArray (get raw ''locales''))),
                       (''ads'', JObj [(''locales'', JObj []), (''combined'', JArr [])]),
                       (''aiTerms'', JObj [(''locales'', JObj []), (''combined'', JArr [])]),
                       (''aiWidgets'', JObj [(''locales'', JObj []), (''combined'', JArr [])]),
                       (''cookies'', JObj [(''locales'', JObj []), (''combined'', JArr [])])]))"
  by (simp add: Let_def normalizePreserveListEntries_def normalizeKillList_def
        normalizeLanguageBuckets_def buckets_def combine_def)

theorem primary_field_check_witness:
  "get (JObj [(''aggressive'', JArr [JStr ''AI''])]) ''entries'' = JUndef
   \<and> snd (normalizeRuleData ascii_upper aiTerms (JObj [(''aggressive'', JArr [JStr ''AI''])]))
       = Inl (Error ''aiTerms.conservative must contain at least one entry'')
   \<and> snd (normalizeRuleData ascii_upper preserveList (JObj [(''aggressive'', JArr [JStr ''AI''])]))
       = Inr (JObj [(''metadata'', JObj [(''version'', JStr ''1.0.0''), (''lastUpdated'', JNull)]),
                    (''locales'', JArr []),
                    (''entries'', JObj [(''locales'', JObj []), (''combined'', JArr [])])])"
  using primary_field_check [of ascii_upper "JObj [(''aggressive'', JArr [JStr ''AI''])]"]
  by (simp add: metadata_def or_null_def)

text \<open>
  Claim C6, as stated, fails for the kill list: one entry without a selector, after a
  valid one, aborts the normalization of the whole category.
\<close>

theorem killList_missing_selector_counterexample:
  "snd (normalizeRuleData ascii_upper killList
          (JObj [(''ads'', JArr [JObj [(''selector'', JStr ''.banner'')],
                                 JObj [(''site'', JStr ''example.org'')]])]))
     = Inl (Error ''Missing selector in killList.ads.GLOBAL entry at index 1'')"
  by code_simp

lemma normalizeKillList_Inl:
  assumes "normalizeKillList up raw = Inl err"
  shows "\<exists>field\<in>set [''ads'', ''aiTerms'', ''aiWidgets'', ''cookies''].
           normalizeLanguageBuckets up (get raw field) (''killList.'' @ field) = Inl err"
  using assms
  by (auto simp: normalizeKillList_def split: sum.splits)

lemma normalizeKillList_Inr:
  assumes "normalizeKillList up raw = Inr p"
  shows "\<forall>field\<in>set [''ads'', ''aiTerms'', ''aiWidgets'', ''cookies''].
           \<exists>b. normalizeLanguageBuckets up (get raw field) (''killList.'' @ field) = Inr b"
  using assms
  by (auto simp: normalizeKillList_def split: sum.splits)

lemma kept_selectors_from:
  "map (\<lambda>x. get x ''selector'')
     (map (\<lambda>(e, j). normalizePreserveEntry e k j)
        (filter (\<lambda>(e, j). \<not> lacks_selector e) (zip es [i ..< i + length es])))
   = map (\<lambda>e. trimmed_or_null (get e ''selector'')) (filter (\<lambda>e. \<not> lacks_selector e) es)"
proof (induction es arbitrary: i)
  case Nil
  then show ?case by simp
next
  case (Cons e es)
  have upt: "[i ..< i + length (e # es)] = i # [Suc i ..< Suc i + length es]"
    by (simp add: upt_rec)
  have sel: "get (normalizePreserveEntry e k i) ''selector'' = trimmed_or_null (get e ''selector'')"
    if "\<not> lacks_selector e"
    using that
    by (auto simp: normalizePreserveEntry_def selector_of_def lacks_selector_def
        split: jsval.splits)
  show ?case
    unfolding upt using Cons.IH [of "Suc i"] sel
    by (simp del: upt_Suc)
qed

text \<open>
  Claim C6, amended. In a preserve list whose groups a key can be read from, no
  element without a usable selector makes the normalization fail: it logs one line
  for each such element, with the key of the group and the index of the element, and
  produces the payload. The payload has one bucket for each key; the bucket of a key
  holds, for the last group registered under that key, the elements of the group that
  have a selector, in their order, with their selectors trimmed, and no other element.
  In a kill list, an entry without a usable selector, in any list of entries of any of
  the four sections, is not dropped: the normalization of the whole category ends in
  an exception and logs nothing. When the exception is an \<^verbatim>\<open>Error\<close>, it is the one
  \<^verbatim>\<open>normalizeDomEntry\<close> throws for the first entry without a selector of one of those
  lists, and its message names the section, the key of the list and the index of that
  entry.
\<close>

theorem missing_selector_handling:
  assumes gs: "gs = ensureArray (get raw_p ''entries'')"
  shows "((\<forall>g\<in>set gs. group_ok g) \<longrightarrow>
            (\<exists>L. normalizeRuleData up preserveList raw_p =
                    (concat (map (\<lambda>(g, i). case group_key up g i of
                                             Inr k \<Rightarrow> skipped_lines k (ensureArray (get g ''elements''))
                                           | Inl e \<Rightarrow> [])
                               (zip gs [0 ..< length gs])),
                     Inr (JObj [(''metadata'', metadata raw_p),
                                (''locales'', JArr (ensureArray (get raw_p ''locales''))),
                                (''entries'',
                                 JObj [(''locales'', JObj L),
                                       (''combined'',
                                        JArr (concat (map (\<lambda>(k, b). ensureArray (get b ''elements''))
                                                        L)))])]))
                \<and> distinct (map fst L)
                \<and> fst ` set L = {k. \<exists>n<length gs. group_key up (gs ! n) n = Inr k}
                \<and> (\<forall>n k. n < length gs \<and> group_key up (gs ! n) n = Inr k
                         \<and> (\<forall>j<length gs. n < j \<longrightarrow> group_key up (gs ! j) j \<noteq> Inr k)
                       \<longrightarrow> map_of L k =
                             Some (JObj [(''title'', or_null (get (gs ! n) ''title'')),
                                         (''elements'',
                                          JArr (kept_elements k
                                                  (ensureArray (get (gs ! n) ''elements''))))]))))
         \<and> map (\<lambda>x. get x ''selector'') (kept_elements k es)
             = map (\<lambda>e. trimmed_or_null (get e ''selector'')) (filter (\<lambda>e. \<not> lacks_selector e) es)
         \<and> (\<forall>field\<in>set [''ads'', ''aiTerms'', ''aiWidgets'', ''cookies''].
               (\<exists>(key, entries)\<in>set (section_lists up (get raw_k field)).
                   \<exists>e\<in>set entries. lacks_selector e)
               \<longrightarrow> fst (normalizeRuleData up killList raw_k) = []
                   \<and> isl (snd (normalizeRuleData up killList raw_k)))
         \<and> (\<forall>m. snd (normalizeRuleData up killList raw_k) = Inl (Error m) \<longrightarrow>
               (\<exists>field\<in>set [''ads'', ''aiTerms'', ''aiWidgets'', ''cookies''].
                  \<exists>(key, entries)\<in>set (section_lists up (get raw_k field)).
                    \<exists>j<length entries.
                      lacks_selector (entries ! j) \<and> (\<forall>n<j. \<not> lacks_selector (entries ! n))
                      \<and> m = ''Missing selector in killList.'' @ field @ ''.'' @ key
                             @ '' entry at index '' @ show_nat j))"
proof (intro conjI impI ballI allI)
  assume ok: "\<forall>g\<in>set gs. group_ok g"
  from register_groups_spec [OF ok, of up 0 "[]"] obtain L where
    run: "register_groups up 0 gs [] =
            (concat (map (\<lambda>(g, i). case group_key up g i of
                                     Inr k \<Rightarrow> skipped_lines k (ensureArray (get g ''elements''))
                                   | Inl e \<Rightarrow> [])
                       (zip gs [0 ..< length gs])),
             Inr L)"
    and keys: "fst ` set L = {k. \<exists>n<length gs. group_key up (gs ! n) n = Inr k}"
    and dist: "distinct (map fst L)"
    and last: "\<forall>n k. n < length gs \<and> group_key up (gs ! n) n = Inr k
                     \<and> (\<forall>j<length gs. n < j \<longrightarrow> group_key up (gs ! j) j \<noteq> Inr k)
                   \<longrightarrow> map_of L k =
                         Some (JObj [(''title'', or_null (get (gs ! n) ''title'')),
                                     (''elements'',
                                      JArr (kept_elements k
                                              (ensureArray (get (gs ! n) ''elements''))))])"
    by auto
  have res: "normalizeRuleData up preserveList raw_p =
                    (concat (map (\<lambda>(g, i). case group_key up g i of
                                             Inr k \<Rightarrow> skipped_lines k (ensureArray (get g ''elements''))
                                           | Inl e \<Rightarrow> [])
                               (zip gs [0 ..< length gs])),
                     Inr (JObj [(''metadata'', metadata raw_p),
                                (''locales'', JArr (ensureArray (get raw_p ''locales''))),
                                (''entries'',
                                 JObj [(''locales'', JObj L),
                                       (''combined'',
                                        JArr (concat (map (\<lambda>(k, b). ensureArray (get b ''elements''))
                                                        L)))])]))"
  proof (cases "\<not> truthy (get raw_p ''entries'') \<or> \<not> isArray (get raw_p ''entries'')")
    case True
    then have "gs = []"
      using gs by (cases "get raw_p ''entries''") auto
    with run have "L = []" by simp
    with True \<open>gs = []\<close> show ?thesis
      by (simp add: normalizePreserveListEntries_def buckets_def combine_def)
  next
    case False
    with run gs show ?thesis
      by (simp add: normalizePreserveListEntries_def buckets_def combine_def)
  qed
  from res dist keys last
  show "\<exists>L. normalizeRuleData up preserveList raw_p =
                    (concat (map (\<lambda>(g, i). case group_key up g i of
                                             Inr k \<Rightarrow> skipped_lines k (ensureArray (get g ''elements''))
                                           | Inl e \<Rightarrow> [])
                               (zip gs [0 ..< length gs])),
                     Inr (JObj [(''metadata'', metadata raw_p),
                                (''locales'', JArr (ensureArray (get raw_p ''locales''))),
                                (''entries'',
                                 JObj [(''locales'', JObj L),
                                       (''combined'',
                                        JArr (concat (map (\<lambda>(k, b). ensureArray (get b ''elements''))
                                                        L)))])]))
                \<and> distinct (map fst L)
                \<and> fst ` set L = {k. \<exists>n<length gs. group_key up (gs ! n) n = Inr k}
                \<and> (\<forall>n k. n < length gs \<and> group_key up (gs ! n) n = Inr k
                         \<and> (\<forall>j<length gs. n < j \<longrightarrow> group_key up (gs ! j) j \<noteq> Inr k)
                       \<longrightarrow> map_of L k =
                             Some (JObj [(''title'', or_null (get (gs ! n) ''title'')),
                                         (''elements'',
                                          JArr (kept_elements k
                                                  (ensureArray (get (gs ! n) ''elements''))))]))"
    by blast
next
  show "map (\<lambda>x. get x ''selector'') (kept_elements k es)
          = map (\<lambda>e. trimmed_or_null (get e ''selector'')) (filter (\<lambda>e. \<not> lacks_selector e) es)"
    using kept_selectors_from [of k es 0] by (simp add: kept_elements_def)
next
  fix field
  assume f: "field \<in> set [''ads'', ''aiTerms'', ''aiWidgets'', ''cookies'']"
    and bad: "\<exists>(key, entries)\<in>set (section_lists up (get raw_k field)).
                \<exists>e\<in>set entries. lacks_selector e"
  show "fst (normalizeRuleData up killList raw_k) = []"
    by simp
  show "isl (snd (normalizeRuleData up killList raw_k))"
  proof (cases "normalizeKillList up raw_k")
    case (Inl e)
    then show ?thesis by simp
  next
    case (Inr p)
    from normalizeKillList_Inr [OF Inr] f obtain b where
      "normalizeLanguageBuckets up (get raw_k field) (''killList.'' @ field) = Inr b"
      by blast
    from normalizeLanguageBuckets_Inr [OF this] bad show ?thesis
      by blast
  qed
next
  fix m
  assume "snd (normalizeRuleData up killList raw_k) = Inl (Error m)"
  then have "normalizeKillList up raw_k = Inl (Error m)"
    by simp
  from normalizeKillList_Inl [OF this] obtain field where
    f: "field \<in> set [''ads'', ''aiTerms'', ''aiWidgets'', ''cookies'']"
    and e: "normalizeLanguageBuckets up (get raw_k field) (''killList.'' @ field) = Inl (Error m)"
    by blast
  from normalizeLanguageBuckets_Inl [OF e]
  have "\<exists>(key, entries)\<in>set (section_lists up (get raw_k field)).
          \<exists>j<length entries.
            lacks_selector (entries ! j) \<and> (\<forall>n<j. \<not> lacks_selector (entries ! n))
            \<and> m = ''Missing selector in killList.'' @ field @ ''.'' @ key
                   @ '' entry at index '' @ show_nat j"
    by auto
  with f show "\<exists>field\<in>set [''ads'', ''aiTerms'', ''aiWidgets'', ''cookies''].
                  \<exists>(key, entries)\<in>set (section_lists up (get raw_k field)).
                    \<exists>j<length entries.
                      lacks_selector (entries ! j) \<and> (\<forall>n<j. \<not> lacks_selector (entries ! n))
                      \<and> m = ''Missing selector in killList.'' @ field @ ''.'' @ key
                             @ '' entry at index '' @ show_nat j"
    by blast
qed

theorem missing_selector_handling_witness:
  "list_all group_ok (ensureArray (get preserve_json ''entries''))
   \<and> fst (normalizeRuleData ascii_upper preserveList preserve_json)
       = [''Skipping preserve entry without selector at EN[1]'']
   \<and> (\<exists>L. snd (normalizeRuleData ascii_upper preserveList preserve_json)
             = Inr (JObj [(''metadata'', metadata preserve_json),
                          (''locales'', JArr []),
                          (''entries'',
                           JObj [(''locales'', JObj L),
                                 (''combined'',
                                  JArr (concat (map (\<lambda>(k, b). ensureArray (get b ''elements''))
                                                  L)))])])
           \<and> map_of L ''EN'' = Some (JObj [(''title'', JNull),
                                            (''elements'', JArr [preserve_entry])]))
   \<and> map (\<lambda>x. get x ''selector'') [preserve_entry] = [JStr ''#search'']
   \<and> section_lists ascii_upper (get kill_json ''ads'')
       = [(''EN'', [JObj [(''selector'', JStr ''.banner'')], JObj [(''site'', JStr ''example.org'')]])]
   \<and> lacks_selector (JObj [(''site'', JStr ''example.org'')])
   \<and> fst (normalizeRuleData ascii_upper killList kill_json) = []
   \<and> isl (snd (normalizeRuleData ascii_upper killList kill_json))"
proof -
  let ?e1 = "JObj [(''selector'', JStr ''#search'')]"
  let ?e2 = "JObj [(''site'', JStr ''example.org'')]"
  let ?b = "JObj [(''selector'', JStr ''.banner'')]"
  let ?g = "JObj [(''locale'', JStr ''en''), (''elements'', JArr [?e1, ?e2])]"
  note t = missing_selector_handling [where gs = "[?g]" and raw_p = preserve_json
      and up = ascii_upper and raw_k = kill_json and k = "''EN''" and es = "[?e1, ?e2]"]
  have gs: "[?g] = ensureArray (get preserve_json ''entries'')"
    by code_simp
  have ok: "\<forall>g\<in>set [?g]. group_ok g"
    by (simp add: group_ok_def)
  have key: "group_key ascii_upper ?g 0 = Inr ''EN''"
    by code_simp
  have lines: "skipped_lines ''EN'' [?e1, ?e2] = [''Skipping preserve entry without selector at EN[1]'']"
    by code_simp
  have kept: "kept_elements ''EN'' [?e1, ?e2] = [preserve_entry]"
    by code_simp
  have loc: "ensureArray (get preserve_json ''locales'') = []"
    by code_simp
  have l2: "lacks_selector ?e2" "\<not> lacks_selector ?e1"
    by code_simp+
  have sl: "section_lists ascii_upper (get kill_json ''ads'') = [(''EN'', [?b, ?e2])]"
    by code_simp
  from t [OF gs, THEN conjunct1] ok obtain L where
    run: "normalizeRuleData ascii_upper preserveList preserve_json =
            (concat (map (\<lambda>(g, i). case group_key ascii_upper g i of
                                     Inr k \<Rightarrow> skipped_lines k (ensureArray (get g ''elements''))
                                   | Inl e \<Rightarrow> [])
                       (zip [?g] [0 ..< length [?g]])),
             Inr (JObj [(''metadata'', metadata preserve_json),
                        (''locales'', JArr (ensureArray (get preserve_json ''locales''))),
                        (''entries'',
                         JObj [(''locales'', JObj L),
                               (''combined'',
                                JArr (concat (map (\<lambda>(k, b). ensureArray (get b ''elements''))
                                                L)))])]))"
    and last: "\<forall>n k. n < length [?g] \<and> group_key ascii_upper ([?g] ! n) n = Inr k
                     \<and> (\<forall>j<length [?g]. n < j \<longrightarrow> group_key ascii_upper ([?g] ! j) j \<noteq> Inr k)
                   \<longrightarrow> map_of L k =
                         Some (JObj [(''title'', or_null (get ([?g] ! n) ''title'')),
                                     (''elements'',
                                      JArr (kept_elements k
                                              (ensureArray (get ([?g] ! n) ''elements''))))])"
    by blast
  have a: "fst (normalizeRuleData ascii_upper preserveList preserve_json)
             = [''Skipping preserve entry without selector at EN[1]'']"
    unfolding run using key lines by simp
  have "map_of L ''EN'' =
          Some (JObj [(''title'', or_null (get ([?g] ! 0) ''title'')),
                      (''elements'',
                       JArr (kept_elements ''EN'' (ensureArray (get ([?g] ! 0) ''elements''))))])"
    using last [rule_format, of 0 "''EN''"] key by simp
  then have b: "map_of L ''EN'' = Some (JObj [(''title'', JNull), (''elements'', JArr [preserve_entry])])"
    using kept by (simp add: or_null_def)
  have c: "map (\<lambda>x. get x ''selector'') [preserve_entry] = [JStr ''#search'']"
    using t [OF gs, THEN conjunct2, THEN conjunct1] kept l2
    by (simp add: trim_def is_space_def)
  have bad: "\<exists>(key, entries)\<in>set (section_lists ascii_upper (get kill_json ''ads'')).
               \<exists>e\<in>set entries. lacks_selector e"
    using l2 by (simp add: sl)
  from t [OF gs, THEN conjunct2, THEN conjunct2, THEN conjunct1, rule_format, of "''ads''"] bad
  have d: "fst (normalizeRuleData ascii_upper killList kill_json) = []"
    "isl (snd (normalizeRuleData ascii_upper killList kill_json))"
    by simp_all
  have e: "\<exists>L. snd (normalizeRuleData ascii_upper preserveList preserve_json)
             = Inr (JObj [(''metadata'', metadata preserve_json),
                          (''locales'', JArr []),
                          (''entries'',
                           JObj [(''locales'', JObj L),
                                 (''combined'',
                                  JArr (concat (map (\<lambda>(k, b). ensureArray (get b ''elements''))
                                                  L)))])])
           \<and> map_of L ''EN'' = Some (JObj [(''title'', JNull),
                                            (''elements'', JArr [preserve_entry])])"
    unfolding run using b by (intro exI [of _ L]) (simp add: loc)
  from ok gs a e c sl l2(1) d show ?thesis
    by (simp add: list_all_iff)
qed


section \<open>Effects of the fetch functions\<close>

lemma quiet_refl: "quiet P w w"
  by (simp add: quiet_def)

lemma quiet_trans: "quiet P w w' \<Longrightarrow> quiet P w' w'' \<Longrightarrow> quiet P w w''"
  by (auto simp: quiet_def)

lemma quiet_mono: "quiet P w w' \<Longrightarrow> (\<And>e. P e \<Longrightarrow> Q e) \<Longrightarrow> quiet Q w w'"
  by (auto simp: quiet_def list_all_iff)

lemma quiet_new_events:
  "quiet P w w' \<Longrightarrow> trace w' = trace w @ new_events w w' \<and> list_all P (new_events w w')"
  by (auto simp: quiet_def new_events_def)

lemma new_events_trans:
  assumes "trace w1 = trace w @ xs" and "trace w' = trace w1 @ ys"
  shows "new_events w w' = xs @ ys"
  using assms by (simp add: new_events_def)

lemma quiet_emit: "list_all P evs \<Longrightarrow> quiet P w (emit evs w)"
  by (simp add: quiet_def emit_def)

lemma quiet_Date_now: "Date_now w = (t, w') \<Longrightarrow> quiet P w w'"
  by (auto simp: quiet_def Date_now_def)

lemma quiet_fetchWithTimeout:
  "fetchWithTimeout u w = (w', r) \<Longrightarrow> P (Fetch u) \<Longrightarrow> quiet P w w'"
  by (auto simp: fetchWithTimeout_def quiet_emit)

lemma quiet_read_manifest:
  "read_manifest pf r w = (w', res) \<Longrightarrow> P (ResponseJson (body r)) \<Longrightarrow> quiet P w w'"
  by (auto simp: read_manifest_def quiet_emit quiet_refl split: sum.splits if_splits)

lemma quiet_fetchIndexManifest:
  assumes run: "fetchIndexManifest pf w = (w', m)"
    and P: "\<And>e. manifest_event e \<Longrightarrow> P e"
  shows "quiet P w w'"
proof -
  have L: "\<And>s. P (Log s)" "\<And>s t. P (LogError s t)" "\<And>s. P (ResponseJson s)"
    "P (Fetch (JStr INDEX_MANIFEST_URL))"
    by (simp_all add: P manifest_event_def)
  show ?thesis
    using run
    apply (simp add: fetchIndexManifest_def Let_def
        split: option.splits prod.splits sum.splits if_splits)
    apply (auto dest!: quiet_fetchWithTimeout [where P = P] quiet_read_manifest [where P = P]
        quiet_Date_now [where P = P] simp: L quiet_def emit_def)
    done
qed

lemma quiet_cdn_attempt:
  assumes run: "cdn_attempt pf c u h w = (w', r)"
    and P: "P (Fetch u)" "\<And>t. P (JSONParse t)" "\<And>s. P (Log s)"
      "\<And>t. h \<noteq> None \<Longrightarrow> P (Digest t)"
  shows "quiet P w w' \<and> storage_index w' = storage_index w"
  using run
  apply (simp add: cdn_attempt_def fetchWithTimeout_def Let_def
      split: option.splits prod.splits sum.splits if_splits net_result.splits)
                      apply (auto simp: P quiet_def emit_def Date_now_def list_all_iff)
  done

lemma cdn_attempt_record:
  assumes run: "cdn_attempt pf c u h w = (w', Inr r)"
  shows "category r = c \<and> source r = ''cdn'' \<and> url r = u \<and> hash r = h
         \<and> verified r = Some (h \<noteq> None) \<and> lastError r = None \<and> lastFailureAt r = None
         \<and> (\<exists>resp json. network w u = Responds resp \<and> ok resp
               \<and> (case h of None \<Rightarrow> True
                   | Some x \<Rightarrow> x = [] \<or> computeSHA256 pf (body resp) = x)
               \<and> JSON_parse pf (body resp) = Inr json
               \<and> snd (normalizeRuleData (toUpperCase pf) c json) = Inr (data r))"
  using run
  apply (simp add: cdn_attempt_def fetchWithTimeout_def Let_def
      split: option.splits prod.splits sum.splits if_splits net_result.splits)
      apply (auto simp: Date_now_def)
  done

lemma cdn_attempt_checked:
  assumes run: "cdn_attempt pf c u (Some h) w = (w', Inr r)" and h: "h \<noteq> []"
  shows "\<exists>resp. network w u = Responds resp \<and> computeSHA256 pf (body resp) = h
           \<and> Digest (body resp) \<in> set (new_events w w')
           \<and> trace w' = trace w @ new_events w w'"
  using run h
  apply (simp add: cdn_attempt_def fetchWithTimeout_def Let_def
      split: option.splits prod.splits sum.splits if_splits net_result.splits)
  apply (auto simp: Date_now_def emit_def new_events_def)
  done

lemma cdn_attempt_mismatch:
  assumes "network w u = Responds resp" "ok resp" "h \<noteq> []"
    "computeSHA256 pf (body resp) \<noteq> h"
  shows "cdn_attempt pf c u (Some h) w =
           (emit [Fetch u, Digest (body resp)] w,
            Inl (Error (integrity_message c h (computeSHA256 pf (body resp)))))"
  using assms by (simp add: cdn_attempt_def fetchWithTimeout_def Let_def emit_def)


lemma quiet_loadFallbackRule:
  assumes run: "loadFallbackRule pf c w = (w', r)"
    and P: "\<And>a. P (FetchPackaged a)" "\<And>t. P (ResponseJson t)" "\<And>s. P (Log s)"
  shows "quiet P w w' \<and> storage_index w' = storage_index w"
  using run
  apply (simp add: loadFallbackRule_def Let_def
      split: option.splits prod.splits sum.splits if_splits)
       apply (auto simp: P quiet_def emit_def Date_now_def list_all_iff)
  done

lemma loadFallbackRule_record:
  assumes run: "loadFallbackRule pf c w = (w', Inr r)"
  shows "category r = c \<and> source r = ''fallback-local'' \<and> verified r = None \<and> hash r = None
         \<and> url r = JStr (getURL pf (FALLBACK_RULE_FILES c))"
  using run
  apply (simp add: loadFallbackRule_def Let_def
      split: option.splits prod.splits sum.splits if_splits)
  apply (auto simp: Date_now_def)
  done

lemma loadFallbackRule_requests:
  assumes run: "loadFallbackRule pf c w = (w', r)"
  shows "FetchPackaged (getURL pf (FALLBACK_RULE_FILES c)) \<in> set (new_events w w')"
  using run
  apply (simp add: loadFallbackRule_def Let_def new_events_def
      split: option.splits prod.splits sum.splits if_splits)
       apply (auto simp: emit_def Date_now_def)
  done

lemma quiet_fetchRuleFromCdn:
  assumes run: "fetchRuleFromCdn pf c w = (w', r)"
    and P: "\<And>u. P (Fetch u)" "\<And>t. P (JSONParse t)" "\<And>s. P (Log s)" "\<And>t. P (Digest t)"
      "\<And>s t. P (LogError s t)" "\<And>t. P (ResponseJson t)"
  shows "quiet P w w'"
proof -
  obtain w1 manifest where m: "fetchIndexManifest pf w = (w1, manifest)"
    by (cases "fetchIndexManifest pf w")
  have q1: "quiet P w w1"
    by (rule quiet_fetchIndexManifest [OF m]) (auto simp: manifest_event_def P split: event.splits)
  have step: "quiet P w1 w2 \<Longrightarrow> quiet P w w2" for w2
    by (rule quiet_trans [OF q1])
  have att: "cdn_attempt pf c u h (emit [Log s] w1) = (w2, res) \<Longrightarrow> quiet P w w2" for u h s w2 res
    by (rule step, rule quiet_trans [of _ _ "emit [Log s] w1"])
       (simp_all add: quiet_emit P quiet_cdn_attempt [where P = P])
  show ?thesis
    using run q1
    by (auto simp: fetchRuleFromCdn_def m Let_def
        split: if_splits jsval.splits prod.splits sum.splits dest: att)
qed

lemma fetchRuleFromCdn_no_side_requests:
  assumes run: "fetchRuleFromCdn pf c w = (w', r)"
  shows "quiet (\<lambda>e. \<not> is_Broadcast e \<and> \<not> is_FetchPackaged e) w w'"
  by (rule quiet_fetchRuleFromCdn [OF run]) (simp_all add: is_Broadcast_def is_FetchPackaged_def)


section \<open>Properties of the rule fetcher\<close>

lemma cdn_attempt_trace:
  assumes run: "cdn_attempt pf c u h w = (w', r)"
  shows "\<exists>rest. trace w' = trace w @ Fetch u # rest
           \<and> list_all (\<lambda>e. case e of Log _ \<Rightarrow> True | JSONParse _ \<Rightarrow> True
                              | Digest _ \<Rightarrow> h \<noteq> None | _ \<Rightarrow> False) rest"
  using run
  apply (simp add: cdn_attempt_def fetchWithTimeout_def Let_def
      split: option.splits prod.splits sum.splits if_splits net_result.splits)
                      apply (auto simp: emit_def Date_now_def list_all_iff)
  done

lemma cdn_attempt_unverified_success:
  assumes "network w u = Responds resp" "ok resp" "JSON_parse pf (body resp) = Inr json"
    "snd (normalizeRuleData (toUpperCase pf) c json) = Inr d"
  shows "\<exists>w' r. cdn_attempt pf c u None w = (w', Inr r) \<and> data r = d"
  using assms
  by (cases "normalizeRuleData (toUpperCase pf) c json")
     (simp add: cdn_attempt_def fetchWithTimeout_def Let_def Date_now_def)

lemma fetchIndexManifest_failure:
  assumes nc: "manifest_not_cached w" and fails: "manifest_fetch_fails pf w"
  shows "snd (fetchIndexManifest pf w) = JNull"
proof -
  define w1 where "w1 = (case storage_index w of None \<Rightarrow> w | Some cached \<Rightarrow> snd (Date_now w))"
  define w1' where "w1' = emit [Log ''Fetching index manifest from CDN...''] w1"
  define attempt where
    "attempt = (case fetchWithTimeout (JStr INDEX_MANIFEST_URL) w1' of
                  (w2, Inl e) \<Rightarrow> (w2, Inl e)
                | (w2, Inr resp) \<Rightarrow> read_manifest pf resp w2)"
  have net: "network w1' = network w"
    by (simp add: w1'_def w1_def emit_def Date_now_def split: option.splits)
  have unfold: "fetchIndexManifest pf w =
      (case attempt of
         (w3, Inl e) \<Rightarrow>
           (emit [LogError ''Failed to fetch index manifest, will use fallback URLs''
                    (message e)] w3, JNull)
       | (w3, Inr manifest) \<Rightarrow>
           (let (now, w4) = Date_now w3 in
            (emit [Log (''Index manifest fetched (version ''
                        @ (if truthy (get manifest ''version'')
                           then js_String (get manifest ''version'') else ''unknown'')
                        @ '')'')]
               (w4\<lparr>storage_index :=
                     Some \<lparr>manifest_data = manifest, manifest_fetchedAt = now\<rparr>\<rparr>),
             manifest)))"
    using nc
    by (simp add: fetchIndexManifest_def manifest_not_cached_def w1_def w1'_def attempt_def
        Let_def Date_now_def split: option.splits prod.splits sum.splits)
  have "\<exists>w3 e. attempt = (w3, Inl e)"
  proof (cases "network w (JStr INDEX_MANIFEST_URL)")
    case (Responds r)
    show ?thesis
    proof (cases "ok r")
      case False
      with Responds net show ?thesis
        by (simp add: attempt_def fetchWithTimeout_def read_manifest_def)
    next
      case True
      show ?thesis
      proof (cases "JSON_parse pf (body r)")
        case (Inl msg)
        with True Responds net show ?thesis
          by (simp add: attempt_def fetchWithTimeout_def read_manifest_def)
      next
        case (Inr manifest)
        with fails True Responds have
          "manifest = JNull \<or> manifest = JUndef \<or> \<not> truthy (get manifest ''files'')
           \<or> \<not> is_object_type (get manifest ''files'')"
          by (auto simp: manifest_fetch_fails_def is_object_type_def split: if_splits jsval.splits)
        with Inr True Responds net show ?thesis
          by (auto simp: attempt_def fetchWithTimeout_def read_manifest_def)
      qed
    qed
  qed (simp_all add: attempt_def fetchWithTimeout_def net)
  then show ?thesis
    by (auto simp: unfold)
qed

text \<open>
  Claim C1. When the manifest has an entry for the category with a non-empty digest,
  the rule file is served, and the SHA-256 of its text differs from that digest, then
  \<^verbatim>\<open>fetchRuleFromCdn\<close> fails with the integrity error, whose message holds the first 32
  characters of the expected and of the computed digest. After the manifest, the call
  only logs a line, makes the request and computes the digest: the text is never given
  to \<^verbatim>\<open>JSON.parse\<close>, so it is never normalized. The call leaves the memory cache and
  the stored rules as they were, and the operation \<^verbatim>\<open>retrieveRule\<close> starts then caches
  nothing, or a record from the packaged fallback, or a record with the data of the
  stored record.
\<close>

theorem integrity_mismatch_is_fatal:
  assumes m: "fetchIndexManifest pf w = (w1, manifest)"
    and files: "truthy manifest" "truthy (get manifest ''files'')"
    and entry: "get (get manifest ''files'') (category_name c) = fileInfo" "truthy fileInfo"
    and digest: "get fileInfo ''sha256'' = JStr expectedHash" "expectedHash \<noteq> []"
    and resp: "network w (get fileInfo ''url'') = Responds resp" "ok resp"
    and differs: "computeSHA256 pf (body resp) \<noteq> expectedHash"
  shows "\<exists>w'. fetchRuleFromCdn pf c w =
             (w', Inl (Error (''CDN fetch failed for '' @ category_name c
                              @ '': Integrity check FAILED for '' @ category_name c @ '':''
                              @ [CHR 0x0A] @ ''  Expected: '' @ take 32 expectedHash @ ''...''
                              @ [CHR 0x0A] @ ''  Got:      ''
                              @ take 32 (computeSHA256 pf (body resp)) @ ''...'')))
           \<and> new_events w1 w' =
               [Log (''Fetching '' @ category_name c @ '' with integrity check (hash: ''
                     @ take 16 expectedHash @ ''...)''),
                Fetch (get fileInfo ''url''), Digest (body resp)]
           \<and> list_all (\<lambda>e. \<not> is_JSONParse e) (new_events w w')
           \<and> inMemoryRuleCache w' = inMemoryRuleCache w
           \<and> storage_rules w' = storage_rules w
           \<and> (\<forall>memoryRecord storedRecord.
                 case fetch_operation pf c memoryRecord storedRecord w of
                   (w'', Inl e) \<Rightarrow>
                     inMemoryRuleCache w'' = inMemoryRuleCache w
                     \<and> storage_rules w'' = storage_rules w
                 | (w'', Inr r) \<Rightarrow>
                     inMemoryRuleCache w'' c = Some r \<and> storage_rules w'' c = Some r
                     \<and> (if source r = ''fallback-local'' then True
                         else (case with_data storedRecord of
                                 None \<Rightarrow> False | Some s \<Rightarrow> data r = data s)))"
proof -
  let ?logline = "Log (''Fetching '' @ category_name c @ '' with integrity check (hash: ''
                     @ take 16 expectedHash @ ''...)'')"
  let ?err = "Error (integrity_message c expectedHash (computeSHA256 pf (body resp)))"
  let ?wrapped = "Error (''CDN fetch failed for '' @ category_name c @ '': ''
                              @ integrity_message c expectedHash (computeSHA256 pf (body resp)))"
  define w0 where "w0 = emit [?logline] w1"
  define w' where "w' = emit [Fetch (get fileInfo ''url''), Digest (body resp)] w0"
  have q1: "quiet manifest_event w w1"
    by (rule quiet_fetchIndexManifest [OF m])
  have net: "network w0 (get fileInfo ''url'') = Responds resp"
    using q1 resp by (simp add: w0_def quiet_def emit_def)
  have att: "cdn_attempt pf c (get fileInfo ''url'') (Some expectedHash) w0 = (w', Inl ?err)"
    unfolding w'_def by (rule cdn_attempt_mismatch [OF net resp(2) digest(2) differs])
  have run: "fetchRuleFromCdn pf c w = (w', Inl ?wrapped)"
    using files entry digest att
    by (simp add: fetchRuleFromCdn_def m Let_def w0_def)
  have literal: "fetchRuleFromCdn pf c w =
             (w', Inl (Error (''CDN fetch failed for '' @ category_name c
                              @ '': Integrity check FAILED for '' @ category_name c @ '':''
                              @ [CHR 0x0A] @ ''  Expected: '' @ take 32 expectedHash @ ''...''
                              @ [CHR 0x0A] @ ''  Got:      ''
                              @ take 32 (computeSHA256 pf (body resp)) @ ''...'')))"
    using run by (simp add: integrity_message_def)
  have tr: "trace w' = trace w1 @ [?logline, Fetch (get fileInfo ''url''), Digest (body resp)]"
    by (simp add: w'_def w0_def emit_def)
  have ne1: "new_events w1 w' = [?logline, Fetch (get fileInfo ''url''), Digest (body resp)]"
    by (simp add: new_events_def tr)
  obtain evs where evs: "trace w1 = trace w @ evs" "list_all manifest_event evs"
    using q1 by (auto simp: quiet_def)
  have ne: "new_events w w' = evs @ [?logline, Fetch (get fileInfo ''url''), Digest (body resp)]"
    by (simp add: new_events_def tr evs)
  have nop: "list_all (\<lambda>e. \<not> is_JSONParse e) (new_events w w')"
    using evs(2) by (auto simp: ne list_all_iff manifest_event_def is_JSONParse_def split: event.splits)
  have mem: "inMemoryRuleCache w' = inMemoryRuleCache w" "storage_rules w' = storage_rules w"
    using q1 by (simp_all add: w'_def w0_def quiet_def emit_def)
  have op: "case fetch_operation pf c memoryRecord storedRecord w of
                   (w'', Inl e) \<Rightarrow>
                     inMemoryRuleCache w'' = inMemoryRuleCache w
                     \<and> storage_rules w'' = storage_rules w
                 | (w'', Inr r) \<Rightarrow>
                     inMemoryRuleCache w'' c = Some r \<and> storage_rules w'' c = Some r
                     \<and> (if source r = ''fallback-local'' then True
                         else (case with_data storedRecord of
                                 None \<Rightarrow> False | Some s \<Rightarrow> data r = data s))"
    for memoryRecord storedRecord
  proof (cases "with_data storedRecord")
    case (Some s)
    then show ?thesis
      using mem
      by (simp add: fetch_operation_def run Let_def Date_now_def emit_def
          saveRuleToStorage_def set_memory_def)
  next
    case None
    let ?w2 = "emit [LogError (''CDN fetch failed for '' @ category_name c) (message ?wrapped)] w'"
    obtain w3 fb where fb: "loadFallbackRule pf c ?w2 = (w3, fb)"
      by (cases "loadFallbackRule pf c ?w2")
    have q3: "quiet (\<lambda>e. True) ?w2 w3"
      using quiet_loadFallbackRule [OF fb, of "\<lambda>e. True"] by simp
    have mem3: "inMemoryRuleCache w3 = inMemoryRuleCache w" "storage_rules w3 = storage_rules w"
      using q3 mem by (simp_all add: quiet_def emit_def)
    show ?thesis
    proof (cases fb)
      case (Inl fe)
      then show ?thesis
        using None fb mem3
        by (simp add: fetch_operation_def run Let_def emit_def)
    next
      case (Inr r)
      then have "source r = ''fallback-local''"
        using loadFallbackRule_record fb by blast
      then show ?thesis
        using None fb Inr
        by (simp add: fetch_operation_def run Let_def Date_now_def emit_def
            saveRuleToStorage_def set_memory_def)
    qed
  qed
  show ?thesis
    by (rule exI [of _ w'], intro conjI allI) (rule literal ne1 nop mem op)+
qed

theorem integrity_mismatch_is_fatal_witness:
  "snd (fetchIndexManifest pf0 world_tampered) = manifest_json
   \<and> computeSHA256 pf0 ''TAMPERED'' = ''00ff''
   \<and> snd (fetchRuleFromCdn pf0 aiTerms world_tampered)
       = Inl (Error (''CDN fetch failed for aiTerms: Integrity check FAILED for aiTerms:''
                     @ [CHR 0x0A] @ ''  Expected: ab01...''
                     @ [CHR 0x0A] @ ''  Got:      00ff...''))
   \<and> list_all (\<lambda>e. \<not> is_JSONParse e) (trace (fst (fetchRuleFromCdn pf0 aiTerms world_tampered)))
   \<and> inMemoryRuleCache (fst (fetchRuleFromCdn pf0 aiTerms world_tampered)) aiTerms = None
   \<and> storage_rules (fst (fetchRuleFromCdn pf0 aiTerms world_tampered)) aiTerms = None"
proof -
  let ?w1 = "fst (fetchIndexManifest pf0 world_tampered)"
  let ?fi = "JObj [(''url'', JStr ''https://cdn.example/ai_terms.json''),
                   (''sha256'', JStr ''ab01''), (''size'', JNum 10)]"
  let ?resp = "\<lparr>status = 200, body = ''TAMPERED''\<rparr>"
  have m: "snd (fetchIndexManifest pf0 world_tampered) = manifest_json" by code_simp
  then have h1: "fetchIndexManifest pf0 world_tampered = (?w1, manifest_json)"
    by (metis prod.collapse)
  have h2: "truthy manifest_json" "truthy (get manifest_json ''files'')"
    by code_simp+
  have h3: "get (get manifest_json ''files'') (category_name aiTerms) = ?fi" "truthy ?fi"
    by code_simp+
  have h4: "get ?fi ''sha256'' = JStr ''ab01''" "''ab01'' \<noteq> []"
    by code_simp+
  have h5: "network world_tampered (get ?fi ''url'') = Responds ?resp" "ok ?resp"
    by code_simp+
  have d: "computeSHA256 pf0 ''TAMPERED'' = ''00ff''" by code_simp
  have h6: "computeSHA256 pf0 (body ?resp) \<noteq> ''ab01''"
    by (simp add: d)
  have e: "trace world_tampered = []" "inMemoryRuleCache world_tampered = (\<lambda>c. None)"
    "storage_rules world_tampered = (\<lambda>c. None)"
    by (simp_all add: world_tampered_def table_world_def)
  from integrity_mismatch_is_fatal [OF h1 h2 h3 h4 h5 h6]
  obtain w' where w':
    "fetchRuleFromCdn pf0 aiTerms world_tampered =
       (w', Inl (Error (''CDN fetch failed for '' @ category_name aiTerms
                        @ '': Integrity check FAILED for '' @ category_name aiTerms @ '':''
                        @ [CHR 0x0A] @ ''  Expected: '' @ take 32 ''ab01'' @ ''...''
                        @ [CHR 0x0A] @ ''  Got:      ''
                        @ take 32 (computeSHA256 pf0 (body ?resp)) @ ''...'')))"
    "list_all (\<lambda>e. \<not> is_JSONParse e) (new_events world_tampered w')"
    "inMemoryRuleCache w' = inMemoryRuleCache world_tampered"
    "storage_rules w' = storage_rules world_tampered"
    by blast
  from w' m d show ?thesis
    by (simp add: new_events_def e)
qed

text \<open>
  Claim C2, as stated, fails: without a manifest, a remote fetch produces a record
  whose source is \<^verbatim>\<open>cdn\<close> and whose \<^verbatim>\<open>verified\<close> is false.
\<close>

theorem unverified_remote_record_counterexample:
  "snd (fetchRuleFromCdn pf0 aiTerms world_no_manifest) =
     Inr \<lparr>category = aiTerms, data = terms_json, source = ''cdn'',
          url = JStr (RULE_ENDPOINTS aiTerms), fetchedAt = 1000, lastError = None,
          lastFailureAt = None, verified = Some False, hash = None\<rparr>"
  by code_simp

text \<open>
  Claim C2, amended. Every record a remote fetch produces has the source \<^verbatim>\<open>cdn\<close>.
  When the manifest has an entry for the category whose \<^verbatim>\<open>sha256\<close> is a non-empty
  string, the record was fetched from the entry's URL, its \<^verbatim>\<open>verified\<close> is true and
  its \<^verbatim>\<open>hash\<close> is that string, which is the SHA-256 the call computed from the text
  that was served. When the manifest is not available or has no entry for the
  category, the record was fetched from the default URL without any digest being
  computed, its \<^verbatim>\<open>verified\<close> is false and its \<^verbatim>\<open>hash\<close> is null.
\<close>

theorem remote_record_verification:
  assumes run: "fetchRuleFromCdn pf c w = (w', Inr r)"
    and m: "snd (fetchIndexManifest pf w) = manifest"
    and fi: "fileInfo = get (get manifest ''files'') (category_name c)"
  shows "source r = ''cdn'' \<and> category r = c
         \<and> (if truthy manifest \<and> truthy (get manifest ''files'') \<and> truthy fileInfo
             then (case get fileInfo ''sha256'' of
                     JStr h \<Rightarrow>
                       if h = [] then True
                       else url r = get fileInfo ''url''
                            \<and> verified r = Some True \<and> hash r = Some h
                            \<and> (\<exists>resp. network w (url r) = Responds resp
                                  \<and> computeSHA256 pf (body resp) = h
                                  \<and> Digest (body resp) \<in> set (new_events w w'))
                   | _ \<Rightarrow> True)
             else url r = JStr (RULE_ENDPOINTS c) \<and> verified r = Some False \<and> hash r = None
                  \<and> list_all (\<lambda>e. case e of Digest _ \<Rightarrow> False | _ \<Rightarrow> True)
                       (new_events w w'))"
proof -
  obtain w1 where w1: "fetchIndexManifest pf w = (w1, manifest)"
    using m by (cases "fetchIndexManifest pf w") simp
  have q1: "quiet manifest_event w w1"
    by (rule quiet_fetchIndexManifest [OF w1])
  obtain evs where evs: "trace w1 = trace w @ evs" "list_all manifest_event evs"
    using q1 by (auto simp: quiet_def)
  have net: "network (emit xs w1) = network w" for xs
    using q1 by (simp add: quiet_def emit_def)
  show ?thesis
  proof (cases "truthy manifest \<and> truthy (get manifest ''files'') \<and> truthy fileInfo")
    case True
    then obtain h where h: "get fileInfo ''sha256'' = JStr h"
      using run by (auto simp: fetchRuleFromCdn_def w1 fi Let_def split: jsval.splits)
    define w0 where
      "w0 = emit [Log (''Fetching '' @ category_name c @ '' with integrity check (hash: ''
                       @ take 16 h @ ''...)'')] w1"
    have att: "cdn_attempt pf c (get fileInfo ''url'') (Some h) w0 = (w', Inr r)"
      using run True h
      by (auto simp: fetchRuleFromCdn_def w1 fi Let_def w0_def split: prod.splits sum.splits)
    have rec: "category r = c" "source r = ''cdn''" "url r = get fileInfo ''url''"
      "hash r = Some h" "verified r = Some True"
      using cdn_attempt_record [OF att] by simp_all
    have chk: "\<exists>resp. network w (url r) = Responds resp
                 \<and> computeSHA256 pf (body resp) = h
                 \<and> Digest (body resp) \<in> set (new_events w w')" if "h \<noteq> []"
    proof -
      from cdn_attempt_checked [OF att that] obtain resp where resp:
        "network w0 (get fileInfo ''url'') = Responds resp" "computeSHA256 pf (body resp) = h"
        "Digest (body resp) \<in> set (new_events w0 w')" "trace w' = trace w0 @ new_events w0 w'"
        by blast
      have "trace w0 = trace w @ (evs @ [Log (''Fetching '' @ category_name c
                         @ '' with integrity check (hash: '' @ take 16 h @ ''...)'')])"
        using evs(1) by (simp add: w0_def emit_def)
      from new_events_trans [OF this resp(4)] resp(3)
      have "Digest (body resp) \<in> set (new_events w w')"
        by simp
      with resp(1,2) show ?thesis
        by (auto simp: rec w0_def net)
    qed
    from True h rec chk show ?thesis
      by simp
  next
    case False
    define w0 where
      "w0 = emit [Log (''Fetching '' @ category_name c
                       @ '' without integrity check (manifest unavailable)'')] w1"
    have att: "cdn_attempt pf c (JStr (RULE_ENDPOINTS c)) None w0 = (w', Inr r)"
      using run False
      by (auto simp: fetchRuleFromCdn_def w1 fi Let_def w0_def split: prod.splits sum.splits)
    obtain rest where rest: "trace w' = trace w0 @ Fetch (JStr (RULE_ENDPOINTS c)) # rest"
      "list_all (\<lambda>e. case e of Log _ \<Rightarrow> True | JSONParse _ \<Rightarrow> True
                              | Digest _ \<Rightarrow> (None :: string option) \<noteq> None | _ \<Rightarrow> False) rest"
      using cdn_attempt_trace [OF att] by blast
    have "trace w0 = trace w @ (evs @ [Log (''Fetching '' @ category_name c
                       @ '' without integrity check (manifest unavailable)'')])"
      using evs(1) by (simp add: w0_def emit_def)
    from new_events_trans [OF this rest(1)]
    have nod: "list_all (\<lambda>e. case e of Digest _ \<Rightarrow> False | _ \<Rightarrow> True) (new_events w w')"
      using evs(2) rest(2)
      by (auto simp: list_all_iff manifest_event_def split: event.splits)
    from cdn_attempt_record [OF att] False nod show ?thesis
      by auto
  qed
qed

theorem remote_record_verification_witness:
  "snd (fetchIndexManifest pf0 world_verified) = manifest_json
   \<and> get (get (get manifest_json ''files'') ''aiTerms'') ''sha256'' = JStr ''ab01''
   \<and> computeSHA256 pf0 ''TERMS'' = ''ab01''
   \<and> (case snd (fetchRuleFromCdn pf0 aiTerms world_verified) of
         Inl e \<Rightarrow> False
       | Inr r \<Rightarrow> source r = ''cdn'' \<and> verified r = Some True \<and> hash r = Some ''ab01''
                  \<and> url r = JStr ''https://cdn.example/ai_terms.json'')
   \<and> Digest ''TERMS'' \<in> set (trace (fst (fetchRuleFromCdn pf0 aiTerms world_verified)))
   \<and> snd (fetchIndexManifest pf0 world_no_manifest) = JNull
   \<and> (case snd (fetchRuleFromCdn pf0 aiTerms world_no_manifest) of
         Inl e \<Rightarrow> False
       | Inr r \<Rightarrow> source r = ''cdn'' \<and> verified r = Some False \<and> hash r = None)"
proof -
  let ?r = "\<lparr>category = aiTerms, data = terms_json, source = ''cdn'',
             url = JStr ''https://cdn.example/ai_terms.json'', fetchedAt = 1000,
             lastError = None, lastFailureAt = None, verified = Some True,
             hash = Some ''ab01''\<rparr>"
  let ?u = "\<lparr>category = aiTerms, data = terms_json, source = ''cdn'',
             url = JStr (RULE_ENDPOINTS aiTerms), fetchedAt = 1000, lastError = None,
             lastFailureAt = None, verified = Some False, hash = None\<rparr>"
  let ?fi = "JObj [(''url'', JStr ''https://cdn.example/ai_terms.json''),
                   (''sha256'', JStr ''ab01''), (''size'', JNum 10)]"
  have m: "snd (fetchIndexManifest pf0 world_verified) = manifest_json" by code_simp
  have d: "computeSHA256 pf0 ''TERMS'' = ''ab01''" by code_simp
  have r: "snd (fetchRuleFromCdn pf0 aiTerms world_verified) = Inr ?r" by code_simp
  then have run: "fetchRuleFromCdn pf0 aiTerms world_verified
                  = (fst (fetchRuleFromCdn pf0 aiTerms world_verified), Inr ?r)"
    by (metis prod.collapse)
  have fi: "?fi = get (get manifest_json ''files'') (category_name aiTerms)"
    by code_simp
  have t: "truthy manifest_json \<and> truthy (get manifest_json ''files'') \<and> truthy ?fi"
    by code_simp
  have sha: "get ?fi ''sha256'' = JStr ''ab01''" "get (get (get manifest_json ''files'') ''aiTerms'') ''sha256'' = JStr ''ab01''"
    by code_simp+
  have n: "network world_verified (JStr ''https://cdn.example/ai_terms.json'')
           = Responds \<lparr>status = 200, body = ''TERMS''\<rparr>"
    by code_simp
  have e: "trace world_verified = []"
    by (simp add: world_verified_def table_world_def)
  from remote_record_verification [OF run m fi] t sha
  have a: "source ?r = ''cdn''" "verified ?r = Some True" "hash ?r = Some ''ab01''"
    "\<exists>resp. network world_verified (url ?r) = Responds resp
        \<and> computeSHA256 pf0 (body resp) = ''ab01''
        \<and> Digest (body resp) \<in> set (new_events world_verified
                                      (fst (fetchRuleFromCdn pf0 aiTerms world_verified)))"
    by simp_all
  from a(4) n have dg: "Digest ''TERMS''
      \<in> set (trace (fst (fetchRuleFromCdn pf0 aiTerms world_verified)))"
    by (auto simp: new_events_def e)
  have m2: "snd (fetchIndexManifest pf0 world_no_manifest) = JNull" by code_simp
  have r2: "snd (fetchRuleFromCdn pf0 aiTerms world_no_manifest) = Inr ?u" by code_simp
  then have run2: "fetchRuleFromCdn pf0 aiTerms world_no_manifest
                  = (fst (fetchRuleFromCdn pf0 aiTerms world_no_manifest), Inr ?u)"
    by (metis prod.collapse)
  from remote_record_verification [OF run2 m2 refl]
  have b: "source ?u = ''cdn''" "verified ?u = Some False" "hash ?u = None"
    by simp_all
  from m sha d r dg m2 r2 show ?thesis
    by simp
qed

text \<open>
  Claim C7. When the manifest is not served from its cache and its fetch fails,
  \<^verbatim>\<open>fetchIndexManifest\<close> returns \<^verbatim>\<open>null\<close>; \<^verbatim>\<open>fetchRuleFromCdn\<close> then requests the
  default URL of the category, and nothing else but the manifest, computes no digest,
  and any record it produces has \<^verbatim>\<open>verified\<close> false, a null hash and the default URL;
  it produces one whenever the default URL serves a text that parses and normalizes.
\<close>

theorem manifest_failure_degrades:
  assumes nc: "manifest_not_cached w" and fails: "manifest_fetch_fails pf w"
  shows "snd (fetchIndexManifest pf w) = JNull
         \<and> (case fetchRuleFromCdn pf c w of
               (w', res) \<Rightarrow>
                 Fetch (JStr (RULE_ENDPOINTS c)) \<in> set (new_events w w')
                 \<and> list_all (\<lambda>e. case e of
                                   Digest _ \<Rightarrow> False
                                 | Fetch u \<Rightarrow> u = JStr INDEX_MANIFEST_URL \<or> u = JStr (RULE_ENDPOINTS c)
                                 | _ \<Rightarrow> True) (new_events w w')
                 \<and> (case res of
                       Inl e \<Rightarrow> True
                     | Inr r \<Rightarrow> verified r = Some False \<and> hash r = None
                                \<and> url r = JStr (RULE_ENDPOINTS c) \<and> source r = ''cdn'')
                 \<and> (\<forall>resp json d.
                       network w (JStr (RULE_ENDPOINTS c)) = Responds resp \<and> ok resp
                       \<and> JSON_parse pf (body resp) = Inr json
                       \<and> snd (normalizeRuleData (toUpperCase pf) c json) = Inr d
                       \<longrightarrow> (\<exists>r. res = Inr r \<and> data r = d)))"
proof -
  have null: "snd (fetchIndexManifest pf w) = JNull"
    by (rule fetchIndexManifest_failure [OF nc fails])
  then obtain w1 where w1: "fetchIndexManifest pf w = (w1, JNull)"
    by (cases "fetchIndexManifest pf w") simp
  have q1: "quiet manifest_event w w1"
    by (rule quiet_fetchIndexManifest [OF w1])
  obtain evs where evs: "trace w1 = trace w @ evs" "list_all manifest_event evs"
    using q1 by (auto simp: quiet_def)
  let ?u = "JStr (RULE_ENDPOINTS c)"
  let ?line = "Log (''Fetching '' @ category_name c
                          @ '' without integrity check (manifest unavailable)'')"
  define w0 where "w0 = emit [?line] w1"
  have net: "network w0 = network w"
    using q1 by (simp add: w0_def quiet_def emit_def)
  have tr0: "trace w0 = trace w @ evs @ [?line]"
    by (simp add: w0_def emit_def evs)
  obtain w' res0 where att: "cdn_attempt pf c ?u None w0 = (w', res0)"
    by (cases "cdn_attempt pf c ?u None w0")
  define res where
    "res = (case res0 of
              Inl e \<Rightarrow> Inl (Error (''CDN fetch failed for '' @ category_name c @ '': '' @ message e))
            | Inr record \<Rightarrow> Inr record)"
  have run: "fetchRuleFromCdn pf c w = (w', res)"
    using att by (simp add: fetchRuleFromCdn_def w1 w0_def res_def Let_def split: sum.splits)
  obtain rest where rest: "trace w' = trace w0 @ Fetch ?u # rest"
    "list_all (\<lambda>e. case e of Log _ \<Rightarrow> True | JSONParse _ \<Rightarrow> True
                              | Digest _ \<Rightarrow> (None :: string option) \<noteq> None | _ \<Rightarrow> False) rest"
    using cdn_attempt_trace [OF att] by blast
  have ne: "new_events w w' = evs @ ?line # Fetch ?u # rest"
    by (simp add: new_events_def rest tr0)
  have a: "Fetch ?u \<in> set (new_events w w')"
    by (simp add: ne)
  have b: "list_all (\<lambda>e. case e of
                                   Digest _ \<Rightarrow> False
                                 | Fetch u \<Rightarrow> u = JStr INDEX_MANIFEST_URL \<or> u = JStr (RULE_ENDPOINTS c)
                                 | _ \<Rightarrow> True) (new_events w w')"
    using evs(2) rest(2)
    by (auto simp: ne list_all_iff manifest_event_def split: event.splits)
  have c: "case res of
                       Inl e \<Rightarrow> True
                     | Inr r \<Rightarrow> verified r = Some False \<and> hash r = None
                                \<and> url r = JStr (RULE_ENDPOINTS c) \<and> source r = ''cdn''"
    using cdn_attempt_record [of pf c ?u None w0 w'] att
    by (auto simp: res_def split: sum.splits)
  have d: "\<exists>r. res = Inr r \<and> data r = d"
    if "network w (JStr (RULE_ENDPOINTS c)) = Responds resp \<and> ok resp
                       \<and> JSON_parse pf (body resp) = Inr json
                       \<and> snd (normalizeRuleData (toUpperCase pf) c json) = Inr d"
    for resp json d
    using cdn_attempt_unverified_success [of w0 ?u resp pf json c d] that att
    by (auto simp: net res_def)
  have d': "\<forall>resp json d.
                       network w (JStr (RULE_ENDPOINTS c)) = Responds resp \<and> ok resp
                       \<and> JSON_parse pf (body resp) = Inr json
                       \<and> snd (normalizeRuleData (toUpperCase pf) c json) = Inr d
                       \<longrightarrow> (\<exists>r. res = Inr r \<and> data r = d)"
    using d by blast
  show ?thesis
    unfolding run prod.case
    by (intro conjI) (rule null a b c d')+
qed

theorem manifest_failure_degrades_witness:
  "manifest_not_cached world_no_manifest
   \<and> manifest_fetch_fails pf0 world_no_manifest
   \<and> snd (fetchIndexManifest pf0 world_no_manifest) = JNull
   \<and> (case snd (fetchRuleFromCdn pf0 aiTerms world_no_manifest) of
         Inl e \<Rightarrow> False
       | Inr r \<Rightarrow> verified r = Some False \<and> hash r = None
                  \<and> url r = JStr (RULE_ENDPOINTS aiTerms) \<and> data r = terms_json)"
proof -
  let ?resp = "\<lparr>status = 200, body = ''TERMS''\<rparr>"
  have h1: "manifest_not_cached world_no_manifest" by code_simp
  have h2: "manifest_fetch_fails pf0 world_no_manifest" by code_simp
  have n: "network world_no_manifest (JStr (RULE_ENDPOINTS aiTerms)) = Responds ?resp \<and> ok ?resp
           \<and> JSON_parse pf0 (body ?resp) = Inr terms_json
           \<and> snd (normalizeRuleData (toUpperCase pf0) aiTerms terms_json) = Inr terms_json"
    by code_simp
  obtain w' res where run: "fetchRuleFromCdn pf0 aiTerms world_no_manifest = (w', res)"
    by (cases "fetchRuleFromCdn pf0 aiTerms world_no_manifest")
  from manifest_failure_degrades [OF h1 h2, of aiTerms] n
  have "snd (fetchIndexManifest pf0 world_no_manifest) = JNull"
    and "case res of Inl e \<Rightarrow> True
         | Inr r \<Rightarrow> verified r = Some False \<and> hash r = None
                    \<and> url r = JStr (RULE_ENDPOINTS aiTerms) \<and> source r = ''cdn''"
    and "\<exists>r. res = Inr r \<and> data r = terms_json"
    unfolding run prod.case by blast+
  with h1 h2 show ?thesis
    by (auto simp: run)
qed

section \<open>Properties of the orchestrator\<close>

lemma fetchRuleFromCdn_source:
  assumes "fetchRuleFromCdn pf c w = (w', Inr r)"
  shows "source r = ''cdn''"
  using assms
  by (auto simp: fetchRuleFromCdn_def Let_def
      split: prod.splits sum.splits if_splits jsval.splits dest: cdn_attempt_record)

lemma new_events_append:
  assumes a: "trace w1 = trace w @ new_events w w1" and b: "trace w' = trace w1 @ evs"
  shows "new_events w w' = new_events w w1 @ evs"
proof -
  obtain xs where xs: "trace w1 = trace w @ xs"
    using a by blast
  then have "new_events w w1 = xs" "trace w' = trace w @ xs @ evs"
    using b by (simp_all add: new_events_def)
  then show ?thesis
    by (simp add: new_events_def)
qed

lemma fetch_operation_success:
  assumes cdn: "fetchRuleFromCdn pf c w = (w1, Inr r)"
    and run: "fetch_operation pf c memoryRecord storedRecord w = (w', res)"
  shows "res = Inr r \<and> inMemoryRuleCache w' c = Some r \<and> storage_rules w' c = Some r
         \<and> new_events w w' =
             new_events w w1
             @ (if \<not> truthy (priorData memoryRecord storedRecord)
                   \<or> \<not> deepEqual pf (priorData memoryRecord storedRecord) (data r)
                then [Broadcast c (Some ''cdn'')
                        (if fetchedAt r = 0 then clock w1 (reads w1) else fetchedAt r)]
                else [])
             @ [Log (''Rules loaded from CDN for '' @ category_name c @ '' (''
                     @ show_nat (entry_count (data r)) @ '' entries)'')]"
proof -
  have src: "source r = ''cdn''"
    by (rule fetchRuleFromCdn_source [OF cdn])
  have tr: "trace w1 = trace w @ new_events w w1"
    using quiet_new_events [OF fetchRuleFromCdn_no_side_requests [OF cdn]] by simp
  show ?thesis
    using run src
    by (auto simp: fetch_operation_def cdn Let_def saveRuleToStorage_def set_memory_def
        broadcastRuleUpdate_def emit_def Date_now_def
        intro!: new_events_append [OF tr])
qed

lemma fetch_operation_stored:
  assumes cdn: "fetchRuleFromCdn pf c w = (w1, Inl cdnError)"
    and stored: "with_data storedRecord = Some s"
    and run: "fetch_operation pf c memoryRecord storedRecord w = (w', res)"
  shows "res = Inr (s\<lparr>lastError := Some (message cdnError),
                      lastFailureAt := Some (clock w1 (reads w1))\<rparr>)
         \<and> inMemoryRuleCache w' c = Some (s\<lparr>lastError := Some (message cdnError),
                      lastFailureAt := Some (clock w1 (reads w1))\<rparr>)
         \<and> storage_rules w' c = Some (s\<lparr>lastError := Some (message cdnError),
                      lastFailureAt := Some (clock w1 (reads w1))\<rparr>)
         \<and> new_events w w' =
             new_events w w1
             @ [LogError (''CDN fetch failed for '' @ category_name c) (message cdnError)]"
proof -
  have tr: "trace w1 = trace w @ new_events w w1"
    using quiet_new_events [OF fetchRuleFromCdn_no_side_requests [OF cdn]] by simp
  show ?thesis
    using run
    by (auto simp: fetch_operation_def cdn stored Let_def saveRuleToStorage_def set_memory_def
        emit_def Date_now_def intro!: new_events_append [OF tr])
qed

lemma fetch_operation_fallback:
  assumes cdn: "fetchRuleFromCdn pf c w = (w1, Inl cdnError)"
    and stored: "with_data storedRecord = None"
    and w2: "w2 = emit [LogError (''CDN fetch failed for '' @ category_name c) (message cdnError)] w1"
    and fb: "loadFallbackRule pf c w2 = (w3, fallback)"
    and run: "fetch_operation pf c memoryRecord storedRecord w = (w', res)"
  shows "(case fallback of
            Inr fallbackRecord \<Rightarrow>
              res = Inr (fallbackRecord\<lparr>lastError := Some (message cdnError),
                                        lastFailureAt := Some (clock w3 (reads w3))\<rparr>)
              \<and> inMemoryRuleCache w' c = res_record res \<and> storage_rules w' c = res_record res
          | Inl fallbackError \<Rightarrow>
              res = Inl (Error (''No rule data available for '' @ category_name c
                                @ ''. CDN error: '' @ message cdnError
                                @ ''. Fallback error: '' @ message fallbackError))
              \<and> inMemoryRuleCache w' = inMemoryRuleCache w
              \<and> storage_rules w' = storage_rules w)
         \<and> (\<exists>last. new_events w w' =
               new_events w w1
               @ LogError (''CDN fetch failed for '' @ category_name c) (message cdnError)
               # new_events w2 w3 @ [last]
               \<and> \<not> is_Broadcast last \<and> \<not> is_FetchPackaged last)"
proof -
  have q1: "quiet (\<lambda>e. \<not> is_Broadcast e \<and> \<not> is_FetchPackaged e) w w1"
    by (rule fetchRuleFromCdn_no_side_requests [OF cdn])
  have tr: "trace w1 = trace w @ new_events w w1"
    using quiet_new_events [OF q1] by simp
  have q3: "quiet (\<lambda>e. True) w2 w3"
    using quiet_loadFallbackRule [OF fb, of "\<lambda>e. True"] by simp
  have tr3: "trace w3 = trace w2 @ new_events w2 w3"
    using quiet_new_events [OF q3] by simp
  have tr3': "trace w3 = trace w1 @ LogError (''CDN fetch failed for '' @ category_name c) (message cdnError)
               # new_events w2 w3"
    using tr3 by (simp add: w2 emit_def)
  have mem: "inMemoryRuleCache w3 = inMemoryRuleCache w" "storage_rules w3 = storage_rules w"
    using q1 q3 by (simp_all add: quiet_def w2 emit_def)
  have fb': "loadFallbackRule pf c (emit [LogError (''CDN fetch failed for '' @ category_name c) (message cdnError)] w1) = (w3, fallback)"
    using fb by (simp add: w2)
  show ?thesis
  proof (cases fallback)
    case (Inl fe)
    have "trace w' = trace w1 @ (LogError (''CDN fetch failed for '' @ category_name c) (message cdnError)
               # new_events w2 w3 @ [LogError (''Fallback load failed for '' @ category_name c)
                                (message fe)])"
      using run fb' Inl tr3'
      by (auto simp: fetch_operation_def cdn stored Let_def emit_def)
    from new_events_append [OF tr this] run fb' Inl mem show ?thesis
      by (auto simp: fetch_operation_def cdn stored Let_def emit_def is_Broadcast_def
          is_FetchPackaged_def)
  next
    case (Inr fr)
    have "trace w' = trace w1 @ (LogError (''CDN fetch failed for '' @ category_name c) (message cdnError)
               # new_events w2 w3 @ [Log (''Using packaged fallback rules for '' @ category_name c)])"
      using run fb' Inr tr3'
      by (auto simp: fetch_operation_def cdn stored Let_def emit_def Date_now_def
          saveRuleToStorage_def set_memory_def)
    from new_events_append [OF tr this] run fb' Inr show ?thesis
      by (auto simp: fetch_operation_def cdn stored Let_def emit_def is_Broadcast_def
          is_FetchPackaged_def Date_now_def saveRuleToStorage_def set_memory_def res_record_def)
  qed
qed

lemma filter_none: "list_all (\<lambda>e. \<not> P e) xs \<Longrightarrow> filter P xs = []"
  by (induction xs) auto

text \<open>
  Claim C3, as stated, fails for the packaged fallback: on a first call with nothing
  cached, a remote fetch that fails its integrity check is followed by a successful
  load of the fallback, the record is new, and no broadcast is sent.
\<close>

theorem fallback_refresh_no_broadcast_counterexample:
  "inMemoryRuleCache world_tampered aiTerms = None
   \<and> storage_rules world_tampered aiTerms = None
   \<and> map_option source (res_record (snd (retrieveRule pf0 aiTerms False world_tampered)))
       = Some ''fallback-local''
   \<and> map_option data (res_record (snd (retrieveRule pf0 aiTerms False world_tampered)))
       = Some terms_json
   \<and> filter is_Broadcast (trace (fst (retrieveRule pf0 aiTerms False world_tampered))) = []"
  by code_simp

lemma fetch_operation_broadcasts:
  assumes run: "fetch_operation pf c memoryRecord storedRecord w = (w', res)"
    and prior: "prior = priorData memoryRecord storedRecord"
  shows "(case snd (fetchRuleFromCdn pf c w) of
            Inr r \<Rightarrow>
              res = Inr r
              \<and> (if \<not> truthy prior \<or> \<not> deepEqual pf prior (data r)
                  then \<exists>t. filter is_Broadcast (new_events w w') = [Broadcast c (Some ''cdn'') t]
                  else filter is_Broadcast (new_events w w') = [])
          | Inl e \<Rightarrow> filter is_Broadcast (new_events w w') = [])
         \<and> (case res of
               Inl e \<Rightarrow> True
             | Inr r \<Rightarrow> if source r = ''fallback-local''
                        then filter is_Broadcast (new_events w w') = [] else True)"
proof -
  obtain w1 remote where cdn: "fetchRuleFromCdn pf c w = (w1, remote)"
    by (cases "fetchRuleFromCdn pf c w")
  have q1: "quiet (\<lambda>e. \<not> is_Broadcast e \<and> \<not> is_FetchPackaged e) w w1"
    by (rule fetchRuleFromCdn_no_side_requests [OF cdn])
  have "list_all (\<lambda>e. \<not> is_Broadcast e) (new_events w w1)"
    using quiet_new_events [OF q1] by (simp add: list_all_iff)
  then have f1: "filter is_Broadcast (new_events w w1) = []"
    by (rule filter_none)
  show ?thesis
  proof (cases remote)
    case (Inr r)
    have src: "source r = ''cdn''"
      using fetchRuleFromCdn_source cdn Inr by blast
    from fetch_operation_success [OF cdn [unfolded Inr] run] f1 src show ?thesis
      by (auto simp: cdn Inr prior is_Broadcast_def)
  next
    case (Inl cdnError)
    note cdn' = cdn [unfolded Inl]
    have "filter is_Broadcast (new_events w w') = []"
    proof (cases "with_data storedRecord")
      case (Some s)
      from fetch_operation_stored [OF cdn' Some run] f1 show ?thesis
        by (simp add: is_Broadcast_def)
    next
      case None
      define w2 where
        "w2 = emit [LogError (''CDN fetch failed for '' @ category_name c) (message cdnError)] w1"
      obtain w3 fallback where fb: "loadFallbackRule pf c w2 = (w3, fallback)"
        by (cases "loadFallbackRule pf c w2")
      have "quiet (\<lambda>e. \<not> is_Broadcast e) w2 w3"
        using quiet_loadFallbackRule [OF fb, of "\<lambda>e. \<not> is_Broadcast e"]
        by (simp add: is_Broadcast_def)
      then have f3: "filter is_Broadcast (new_events w2 w3) = []"
        using quiet_new_events filter_none by blast
      from fetch_operation_fallback [OF cdn' None w2_def fb run] f1 f3 show ?thesis
        by (auto simp: is_Broadcast_def)
    qed
    then show ?thesis
      by (simp add: cdn Inl split: sum.splits)
  qed
qed

lemma fetch_operation_extends:
  assumes run: "fetch_operation pf c memoryRecord storedRecord w = (w', res)"
  shows "trace w' = trace w @ new_events w w'"
proof -
  obtain w1 remote where cdn: "fetchRuleFromCdn pf c w = (w1, remote)"
    by (cases "fetchRuleFromCdn pf c w")
  have tr: "trace w1 = trace w @ new_events w w1"
    using quiet_new_events [OF fetchRuleFromCdn_no_side_requests [OF cdn]] by simp
  have ext: "\<exists>xs. trace w' = trace w1 @ xs"
  proof (cases remote)
    case (Inr r)
    with run show ?thesis
      by (auto simp: fetch_operation_def cdn Let_def saveRuleToStorage_def set_memory_def
          broadcastRuleUpdate_def emit_def Date_now_def)
  next
    case (Inl cdnError)
    show ?thesis
    proof (cases "with_data storedRecord")
      case (Some s)
      with run Inl show ?thesis
        by (auto simp: fetch_operation_def cdn Let_def saveRuleToStorage_def set_memory_def
            emit_def Date_now_def)
    next
      case None
      define w2 where
        "w2 = emit [LogError (''CDN fetch failed for '' @ category_name c) (message cdnError)] w1"
      obtain w3 fallback where fb: "loadFallbackRule pf c w2 = (w3, fallback)"
        by (cases "loadFallbackRule pf c w2")
      have "quiet (\<lambda>e. True) w2 w3"
        using quiet_loadFallbackRule [OF fb, of "\<lambda>e. True"] by simp
      then obtain ys where ys: "trace w3 = trace w2 @ ys"
        by (auto simp: quiet_def)
      have t2: "trace w2 = trace w1 @ [LogError (''CDN fetch failed for '' @ category_name c)
                                         (message cdnError)]"
        by (simp add: w2_def emit_def)
      have "\<exists>zs. trace w' = trace w3 @ zs"
        using run Inl None fb [unfolded w2_def]
        by (auto simp: fetch_operation_def cdn Let_def saveRuleToStorage_def set_memory_def
            emit_def Date_now_def split: sum.splits)
      with ys t2 show ?thesis
        by auto
    qed
  qed
  then obtain xs where "trace w' = trace w @ (new_events w w1 @ xs)"
    using tr by auto
  then show ?thesis
    by (simp add: new_events_def)
qed

lemma loadRuleFromStorage_effect:
  assumes "loadRuleFromStorage pf c w = (w', s)"
  shows "inMemoryRuleCache w' = inMemoryRuleCache w
         \<and> pendingRuleFetches w' = pendingRuleFetches w
         \<and> clock w' = clock w \<and> reads w' = reads w
         \<and> (\<exists>evs. trace w' = trace w @ evs
               \<and> list_all (\<lambda>e. \<not> is_Broadcast e \<and> \<not> is_FetchPackaged e) evs)"
  using assms
  by (auto simp: loadRuleFromStorage_def emit_def is_Broadcast_def is_FetchPackaged_def
      list_all_iff split: option.splits if_splits prod.splits sum.splits)

lemma loadRuleFromStorage_record:
  "storage_rules w1 c = storage_rules w c \<Longrightarrow>
   snd (loadRuleFromStorage pf c w1) = snd (loadRuleFromStorage pf c w)"
  by (simp add: loadRuleFromStorage_def split: option.splits prod.splits sum.splits)

lemma check_fresh_effect:
  assumes "check_fresh w record = (b, w')"
  shows "inMemoryRuleCache w' = inMemoryRuleCache w
         \<and> pendingRuleFetches w' = pendingRuleFetches w
         \<and> storage_rules w' = storage_rules w \<and> trace w' = trace w"
  using assms
  by (auto simp: check_fresh_def Date_now_def Let_def split: option.splits if_splits)

lemma cache_lookup_stale:
  assumes look: "cache_lookup pf c forceRefresh w0 = (w, Inr (m, s))"
  shows "m = inMemoryRuleCache w0 c
         \<and> s = snd (loadRuleFromStorage pf c w0)
         \<and> pendingRuleFetches w = pendingRuleFetches w0
         \<and> (\<exists>evs. trace w = trace w0 @ evs
               \<and> list_all (\<lambda>e. \<not> is_Broadcast e \<and> \<not> is_FetchPackaged e) evs)"
proof -
  obtain b1 w1 where c1: "(if forceRefresh then (False, w0)
                           else check_fresh w0 (inMemoryRuleCache w0 c)) = (b1, w1)"
    by (cases "if forceRefresh then (False, w0) else check_fresh w0 (inMemoryRuleCache w0 c)")
  have e1: "inMemoryRuleCache w1 = inMemoryRuleCache w0
            \<and> pendingRuleFetches w1 = pendingRuleFetches w0
            \<and> storage_rules w1 = storage_rules w0 \<and> trace w1 = trace w0"
    using c1 check_fresh_effect [of w0 "inMemoryRuleCache w0 c" b1 w1]
    by (auto split: if_splits)
  obtain w2 st where ld: "loadRuleFromStorage pf c w1 = (w2, st)"
    by (cases "loadRuleFromStorage pf c w1")
  note e2 = loadRuleFromStorage_effect [OF ld]
  have st: "st = snd (loadRuleFromStorage pf c w0)"
    using loadRuleFromStorage_record [of w1 c w0 pf] e1 ld by simp
  obtain b2 w3 where c2: "(if forceRefresh then (False, w2) else check_fresh w2 st) = (b2, w3)"
    by (cases "if forceRefresh then (False, w2) else check_fresh w2 st")
  have e3: "pendingRuleFetches w3 = pendingRuleFetches w2 \<and> trace w3 = trace w2"
    using c2 check_fresh_effect [of w2 st b2 w3]
    by (auto split: if_splits)
  have "w = w3 \<and> m = inMemoryRuleCache w0 c \<and> s = st"
    using look c1 ld c2
    by (auto simp: cache_lookup_def Let_def split: if_splits option.splits)
  with e1 e2 e3 st show ?thesis
    by auto
qed

lemma priorData_loaded:
  assumes "has_payload (inMemoryRuleCache w0 c) \<or> loads_unchanged pf c w0"
  shows "priorData (inMemoryRuleCache w0 c) (snd (loadRuleFromStorage pf c w0))
         = priorData (inMemoryRuleCache w0 c) (storage_rules w0 c)"
proof (cases "has_payload (inMemoryRuleCache w0 c)")
  case True
  then show ?thesis
    by (auto simp: has_payload_def priorData_def Let_def split: option.splits)
next
  case False
  with assms have "loads_unchanged pf c w0" by simp
  then show ?thesis
    by (cases "storage_rules w0 c")
       (auto simp: loads_unchanged_def loadRuleFromStorage_def priorData_def Let_def
          split: option.splits prod.splits sum.splits if_splits)
qed

text \<open>
  Claim C3, amended. A call of \<^verbatim>\<open>retrieveRule\<close> that goes on to refresh broadcasts
  only after a successful remote fetch, and then exactly when there was no previously
  cached payload or \<^verbatim>\<open>deepEqual\<close> of that payload and the new one is false; a
  refreshed payload equal to the cached one produces no broadcast. The previously cached
  payload is that of the record in memory, else of the record in storage; this is
  stated for a call that finds the payload in memory or whose stored payload
  \<^verbatim>\<open>loadRuleFromStorage\<close> hands on as it is. The broadcast is one message, for the
  category, with the source \<^verbatim>\<open>cdn\<close>. When the remote fetch fails, whether the stored
  record is kept or the packaged fallback is loaded, nothing is broadcast.
\<close>

theorem broadcast_iff_remote_change:
  assumes look: "cache_lookup pf c forceRefresh w0 = (w, Inr stale)"
    and idle: "pendingRuleFetches w0 c = None"
    and run: "retrieveRule pf c forceRefresh w0 = (w', res)"
    and prior: "prior = priorData (inMemoryRuleCache w0 c) (storage_rules w0 c)"
  shows "(case snd (fetchRuleFromCdn pf c w) of
            Inr r \<Rightarrow>
              res = Inr r
              \<and> (if has_payload (inMemoryRuleCache w0 c) \<or> loads_unchanged pf c w0
                  then (if \<not> truthy prior \<or> \<not> deepEqual pf prior (data r)
                        then \<exists>t. filter is_Broadcast (new_events w0 w')
                                   = [Broadcast c (Some ''cdn'') t]
                        else filter is_Broadcast (new_events w0 w') = [])
                       \<and> (if truthy prior \<and> data r = prior
                           then filter is_Broadcast (new_events w0 w') = [] else True)
                  else True)
          | Inl e \<Rightarrow> filter is_Broadcast (new_events w0 w') = [])
         \<and> (case res of
               Inl e \<Rightarrow> True
             | Inr r \<Rightarrow> if source r = ''fallback-local''
                        then filter is_Broadcast (new_events w0 w') = [] else True)"
proof -
  obtain m s where stale: "stale = (m, s)"
    by (cases stale)
  note look' = look [unfolded stale]
  from cache_lookup_stale [OF look'] obtain evs where
    m: "m = inMemoryRuleCache w0 c" and s: "s = snd (loadRuleFromStorage pf c w0)"
    and pend: "pendingRuleFetches w = pendingRuleFetches w0"
    and evs: "trace w = trace w0 @ evs" "list_all (\<lambda>e. \<not> is_Broadcast e \<and> \<not> is_FetchPackaged e) evs"
    by blast
  obtain w4 where op: "fetch_operation pf c m s w = (w4, res)"
    and w': "w' = w4\<lparr>pendingRuleFetches := (pendingRuleFetches w4)(c := None)\<rparr>"
    using run idle pend
    by (auto simp: retrieveRule_def look' Let_def split: prod.splits)
  have "trace w' = trace w @ new_events w w4"
    using fetch_operation_extends [OF op] by (simp add: w')
  from new_events_trans [OF evs(1) this]
  have ne: "new_events w0 w' = evs @ new_events w w4" .
  have "filter is_Broadcast evs = []"
    using evs(2) by (intro filter_none) (simp add: list_all_iff)
  then have f: "filter is_Broadcast (new_events w0 w') = filter is_Broadcast (new_events w w4)"
    by (simp add: ne)
  have p: "priorData m s = prior"
    if "has_payload (inMemoryRuleCache w0 c) \<or> loads_unchanged pf c w0"
    using priorData_loaded [OF that] by (simp add: m s prior)
  have same: "deepEqual pf x x" for x
    by (simp add: deepEqual_def)
  note b = fetch_operation_broadcasts [OF op refl]
  show ?thesis
  proof (cases "snd (fetchRuleFromCdn pf c w)")
    case (Inr r)
    with b p same show ?thesis
      by (auto simp: f split: sum.splits if_splits)
  next
    case (Inl e)
    with b show ?thesis
      by (auto simp: f split: sum.splits if_splits)
  qed
qed

theorem broadcast_iff_remote_change_witness:
  "isl (snd (cache_lookup pf0 aiTerms False world_verified)) = False
   \<and> priorData (inMemoryRuleCache world_verified aiTerms) (storage_rules world_verified aiTerms)
       = JNull
   \<and> (\<exists>t. filter is_Broadcast (trace (fst (retrieveRule pf0 aiTerms False world_verified)))
           = [Broadcast aiTerms (Some ''cdn'') t])
   \<and> inMemoryRuleCache world_cached_restarted aiTerms = None
   \<and> loads_unchanged pf0 aiTerms world_cached_restarted
   \<and> priorData (inMemoryRuleCache world_cached_restarted aiTerms)
        (storage_rules world_cached_restarted aiTerms) = terms_json
   \<and> map_option data (res_record (snd (retrieveRule pf0 aiTerms True world_cached_restarted)))
       = Some terms_json
   \<and> filter is_Broadcast
        (new_events world_cached_restarted
           (fst (retrieveRule pf0 aiTerms True world_cached_restarted))) = []"
proof -
  let ?r = "\<lparr>category = aiTerms, data = terms_json, source = ''cdn'',
             url = JStr ''https://cdn.example/ai_terms.json'', fetchedAt = 1000,
             lastError = None, lastFailureAt = None, verified = Some True,
             hash = Some ''ab01''\<rparr>"
  let ?w1 = "fst (cache_lookup pf0 aiTerms False world_verified)"
  let ?w2 = "fst (cache_lookup pf0 aiTerms True world_cached_restarted)"
  have l1: "snd (cache_lookup pf0 aiTerms False world_verified) = Inr (None, None)"
    by code_simp
  then have look1: "cache_lookup pf0 aiTerms False world_verified = (?w1, Inr (None, None))"
    by (metis prod.collapse)
  have idle1: "pendingRuleFetches world_verified aiTerms = None"
    by (simp add: world_verified_def table_world_def)
  have run1: "retrieveRule pf0 aiTerms False world_verified
              = (fst (retrieveRule pf0 aiTerms False world_verified),
                 snd (retrieveRule pf0 aiTerms False world_verified))"
    by simp
  have p1: "priorData (inMemoryRuleCache world_verified aiTerms)
              (storage_rules world_verified aiTerms) = JNull"
    by code_simp
  have h1: "loads_unchanged pf0 aiTerms world_verified" by code_simp
  have r1: "snd (fetchRuleFromCdn pf0 aiTerms ?w1) = Inr ?r" by code_simp
  have e1: "trace world_verified = []"
    by (simp add: world_verified_def table_world_def)
  from broadcast_iff_remote_change [OF look1 idle1 run1 refl] r1 p1 h1
  have a: "\<exists>t. filter is_Broadcast (trace (fst (retrieveRule pf0 aiTerms False world_verified)))
             = [Broadcast aiTerms (Some ''cdn'') t]"
    by (simp add: new_events_def e1)
  have l2: "snd (cache_lookup pf0 aiTerms True world_cached_restarted)
            = Inr (None, Some ?r)"
    by code_simp
  then have look2: "cache_lookup pf0 aiTerms True world_cached_restarted
                    = (?w2, Inr (None, Some ?r))"
    by (metis prod.collapse)
  have idle2: "pendingRuleFetches world_cached_restarted aiTerms = None"
    by (simp add: world_cached_restarted_def restarted_def)
  have run2: "retrieveRule pf0 aiTerms True world_cached_restarted
              = (fst (retrieveRule pf0 aiTerms True world_cached_restarted),
                 snd (retrieveRule pf0 aiTerms True world_cached_restarted))"
    by simp
  have m2: "inMemoryRuleCache world_cached_restarted aiTerms = None"
    by (simp add: world_cached_restarted_def restarted_def)
  have h2: "loads_unchanged pf0 aiTerms world_cached_restarted" by code_simp
  have p2: "priorData (inMemoryRuleCache world_cached_restarted aiTerms)
              (storage_rules world_cached_restarted aiTerms) = terms_json"
    by code_simp
  have r2: "snd (fetchRuleFromCdn pf0 aiTerms ?w2) = Inr ?r" by code_simp
  have t: "truthy terms_json" by code_simp
  from broadcast_iff_remote_change [OF look2 idle2 run2 refl] r2 p2 h2 t
  have b: "snd (retrieveRule pf0 aiTerms True world_cached_restarted) = Inr ?r"
    "filter is_Broadcast
        (new_events world_cached_restarted
           (fst (retrieveRule pf0 aiTerms True world_cached_restarted))) = []"
    by simp_all
  from l1 p1 a m2 h2 p2 b show ?thesis
    by (simp add: res_record_def)
qed

text \<open>
  Claim C4 fails on the code for the preserve list. Six hours after it was fetched,
  the record is in memory and in storage with its payload of one element, and the
  network is down. The remote fetch fails, the packaged file is not requested, and the
  record that \<^verbatim>\<open>retrieveRule\<close> serves has the error noted, but its payload is the
  empty one: the stored record the call falls back on has been through
  \<^verbatim>\<open>loadRuleFromStorage\<close>, which normalized its payload again.
\<close>

theorem failed_refresh_serves_emptied_payload:
  "map_option data (inMemoryRuleCache world_stale preserveList) = Some preserve_payload
   \<and> map_option data (storage_rules world_stale preserveList) = Some preserve_payload
   \<and> isRecordFresh (clock world_stale (reads world_stale))
        (storage_rules world_stale preserveList) = False
   \<and> filter is_FetchPackaged
        (new_events world_stale (fst (retrieveRule pf0 preserveList False world_stale))) = []
   \<and> map_option lastError (res_record (snd (retrieveRule pf0 preserveList False world_stale)))
       = Some (Some ''CDN fetch failed for preserveList: Failed to fetch'')
   \<and> map_option data (res_record (snd (retrieveRule pf0 preserveList False world_stale)))
       = Some empty_preserve_payload
   \<and> empty_preserve_payload \<noteq> preserve_payload"
  by code_simp

text \<open>
  The order of recovery that claim C4 describes holds of the record the call has read
  through \<^verbatim>\<open>loadRuleFromStorage\<close>. A call of \<^verbatim>\<open>retrieveRule\<close> that finds no fresh
  record and no pending operation returns what its operation returns. When the remote
  fetch fails and the record read from storage has data, the result is that record
  with the error noted, and the packaged file is not requested. The packaged file is
  requested only when there is no such record; its record is the result when it loads,
  and the error \<^verbatim>\<open>No rule data available\<close> when it does not. So the operation ends in
  an error only when the remote fetch failed, no stored record was there, and the
  fallback failed.
\<close>

theorem recovery_order:
  assumes look: "cache_lookup pf c forceRefresh w0 = (w, Inr (memoryRecord, storedRecord))"
    and idle: "pendingRuleFetches w c = None"
    and run: "fetch_operation pf c memoryRecord storedRecord w = (w', res)"
  shows "snd (retrieveRule pf c forceRefresh w0) = res
         \<and> (case fetchRuleFromCdn pf c w of
               (w1, Inr r) \<Rightarrow> res = Inr r
             | (w1, Inl cdnError) \<Rightarrow>
                 (case with_data storedRecord of
                    Some s \<Rightarrow>
                      res = Inr (s\<lparr>lastError := Some (message cdnError),
                                   lastFailureAt := Some (clock w1 (reads w1))\<rparr>)
                      \<and> filter is_FetchPackaged (new_events w w') = []
                  | None \<Rightarrow>
                      FetchPackaged (getURL pf (FALLBACK_RULE_FILES c)) \<in> set (new_events w w')
                      \<and> (case loadFallbackRule pf c
                                 (emit [LogError (''CDN fetch failed for '' @ category_name c)
                                          (message cdnError)] w1) of
                            (w3, Inr fallbackRecord) \<Rightarrow>
                              res = Inr (fallbackRecord\<lparr>lastError := Some (message cdnError),
                                                        lastFailureAt := Some (clock w3 (reads w3))\<rparr>)
                          | (w3, Inl fallbackError) \<Rightarrow>
                              res = Inl (Error (''No rule data available for '' @ category_name c
                                                @ ''. CDN error: '' @ message cdnError
                                                @ ''. Fallback error: ''
                                                @ message fallbackError)))))
         \<and> (if isl res then isl (snd (fetchRuleFromCdn pf c w)) \<and> with_data storedRecord = None
             else True)"
proof -
  have a: "snd (retrieveRule pf c forceRefresh w0) = res"
    by (simp add: retrieveRule_def look idle run)
  obtain w1 remote where cdn: "fetchRuleFromCdn pf c w = (w1, remote)"
    by (cases "fetchRuleFromCdn pf c w")
  have q1: "quiet (\<lambda>e. \<not> is_Broadcast e \<and> \<not> is_FetchPackaged e) w w1"
    by (rule fetchRuleFromCdn_no_side_requests [OF cdn])
  have "list_all (\<lambda>e. \<not> is_FetchPackaged e) (new_events w w1)"
    using quiet_new_events [OF q1] by (simp add: list_all_iff)
  then have f1: "filter is_FetchPackaged (new_events w w1) = []"
    by (rule filter_none)
  show ?thesis
  proof (cases remote)
    case (Inr r)
    from fetch_operation_success [OF cdn [unfolded Inr] run] a show ?thesis
      by (simp add: cdn Inr)
  next
    case (Inl cdnError)
    note cdn' = cdn [unfolded Inl]
    show ?thesis
    proof (cases "with_data storedRecord")
      case (Some s)
      from fetch_operation_stored [OF cdn' Some run] f1 a show ?thesis
        by (simp add: cdn Inl Some is_FetchPackaged_def)
    next
      case None
      define w2 where
        "w2 = emit [LogError (''CDN fetch failed for '' @ category_name c) (message cdnError)] w1"
      obtain w3 fallback where fb: "loadFallbackRule pf c w2 = (w3, fallback)"
        by (cases "loadFallbackRule pf c w2")
      have req: "FetchPackaged (getURL pf (FALLBACK_RULE_FILES c)) \<in> set (new_events w2 w3)"
        by (rule loadFallbackRule_requests [OF fb])
      from fetch_operation_fallback [OF cdn' None w2_def fb run] req a
      show ?thesis
        using fb [unfolded w2_def]
        by (auto simp: cdn Inl None split: sum.splits)
    qed
  qed
qed

theorem recovery_order_witness:
  "snd (cache_lookup pf0 aiTerms False world_offline) = Inr (None, Some old_record)
   \<and> snd (fetchRuleFromCdn pf0 aiTerms (fst (cache_lookup pf0 aiTerms False world_offline)))
       = Inl (Error ''CDN fetch failed for aiTerms: Failed to fetch'')
   \<and> snd (retrieveRule pf0 aiTerms False world_offline)
       = Inr (old_record\<lparr>lastError := Some ''CDN fetch failed for aiTerms: Failed to fetch'',
                         lastFailureAt := Some 100000000\<rparr>)"
proof -
  let ?w = "fst (cache_lookup pf0 aiTerms False world_offline)"
  have l: "snd (cache_lookup pf0 aiTerms False world_offline) = Inr (None, Some old_record)"
    by code_simp
  then have look: "cache_lookup pf0 aiTerms False world_offline = (?w, Inr (None, Some old_record))"
    by (metis prod.collapse)
  have idle: "pendingRuleFetches ?w aiTerms = None" by code_simp
  have run: "fetch_operation pf0 aiTerms None (Some old_record) ?w
              = (fst (fetch_operation pf0 aiTerms None (Some old_record) ?w),
                 snd (fetch_operation pf0 aiTerms None (Some old_record) ?w))"
    by simp
  have e: "snd (fetchRuleFromCdn pf0 aiTerms ?w)
             = Inl (Error ''CDN fetch failed for aiTerms: Failed to fetch'')"
    by code_simp
  have v: "snd (fetch_operation pf0 aiTerms None (Some old_record) ?w)
       = Inr (old_record\<lparr>lastError := Some ''CDN fetch failed for aiTerms: Failed to fetch'',
                         lastFailureAt := Some 100000000\<rparr>)"
    by code_simp
  from recovery_order [OF look idle run]
  have "snd (retrieveRule pf0 aiTerms False world_offline)
        = snd (fetch_operation pf0 aiTerms None (Some old_record) ?w)"
    by blast
  with l e v show ?thesis by simp
qed

text \<open>
  Claim C10 fails on the code for the preserve list, in the same state: after the
  failed refresh, the record in memory and the record in storage have the source, the
  URL, the time of fetching and the verification of the record that was stored, and the
  error noted, but their payload is the empty one, not the payload that was stored.
\<close>

theorem failed_refresh_overwrites_stored_payload:
  "map_option data (storage_rules world_stale preserveList) = Some preserve_payload
   \<and> map_option data
        (storage_rules (fst (retrieveRule pf0 preserveList False world_stale)) preserveList)
       = Some empty_preserve_payload
   \<and> map_option data
        (inMemoryRuleCache (fst (retrieveRule pf0 preserveList False world_stale)) preserveList)
       = Some empty_preserve_payload
   \<and> map_option source
        (storage_rules (fst (retrieveRule pf0 preserveList False world_stale)) preserveList)
       = map_option source (storage_rules world_stale preserveList)
   \<and> map_option url
        (storage_rules (fst (retrieveRule pf0 preserveList False world_stale)) preserveList)
       = map_option url (storage_rules world_stale preserveList)
   \<and> map_option fetchedAt
        (storage_rules (fst (retrieveRule pf0 preserveList False world_stale)) preserveList)
       = map_option fetchedAt (storage_rules world_stale preserveList)
   \<and> map_option verified
        (storage_rules (fst (retrieveRule pf0 preserveList False world_stale)) preserveList)
       = map_option verified (storage_rules world_stale preserveList)
   \<and> map_option lastFailureAt
        (storage_rules (fst (retrieveRule pf0 preserveList False world_stale)) preserveList)
       = Some (Some 21601000)
   \<and> empty_preserve_payload \<noteq> preserve_payload"
  by code_simp

text \<open>
  The frame that claim C10 describes holds of the record the call has read through
  \<^verbatim>\<open>loadRuleFromStorage\<close>. When the remote fetch fails and that record has data,
  the record put in memory and in storage, and returned, is that record with
  \<^verbatim>\<open>lastError\<close> the message of the failure and \<^verbatim>\<open>lastFailureAt\<close> the time read
  next; its category, data, source, url, fetchedAt, verified and hash are those of the
  record read.
\<close>

theorem stored_record_frame:
  assumes cdn: "fetchRuleFromCdn pf c w = (w1, Inl cdnError)"
    and stored: "storedRecord = Some s" "truthy (data s)"
    and run: "fetch_operation pf c memoryRecord storedRecord w = (w', res)"
  shows "\<exists>r. res = Inr r \<and> inMemoryRuleCache w' c = Some r \<and> storage_rules w' c = Some r
           \<and> r = s\<lparr>lastError := Some (message cdnError),
                    lastFailureAt := Some (clock w1 (reads w1))\<rparr>
           \<and> category r = category s \<and> data r = data s \<and> source r = source s
           \<and> url r = url s \<and> fetchedAt r = fetchedAt s \<and> verified r = verified s
           \<and> hash r = hash s"
proof -
  have "with_data storedRecord = Some s"
    using stored by (simp add: with_data_def)
  from fetch_operation_stored [OF cdn this run] show ?thesis
    by simp
qed

theorem stored_record_frame_witness:
  "snd (fetchRuleFromCdn pf0 aiTerms world_offline)
     = Inl (Error ''CDN fetch failed for aiTerms: Failed to fetch'')
   \<and> truthy (data old_record)
   \<and> (\<exists>r. snd (fetch_operation pf0 aiTerms None (Some old_record) world_offline) = Inr r
         \<and> inMemoryRuleCache (fst (fetch_operation pf0 aiTerms None (Some old_record) world_offline))
             aiTerms = Some r
         \<and> storage_rules (fst (fetch_operation pf0 aiTerms None (Some old_record) world_offline))
             aiTerms = Some r
         \<and> data r = data old_record \<and> source r = ''cdn'' \<and> fetchedAt r = 1
         \<and> verified r = Some True
         \<and> lastError r = Some ''CDN fetch failed for aiTerms: Failed to fetch'')"
proof -
  let ?e = "Error ''CDN fetch failed for aiTerms: Failed to fetch''"
  have e: "snd (fetchRuleFromCdn pf0 aiTerms world_offline) = Inl ?e" by code_simp
  then have cdn: "fetchRuleFromCdn pf0 aiTerms world_offline
                  = (fst (fetchRuleFromCdn pf0 aiTerms world_offline), Inl ?e)"
    by (metis prod.collapse)
  have t: "truthy (data old_record)" by code_simp
  have run: "fetch_operation pf0 aiTerms None (Some old_record) world_offline
              = (fst (fetch_operation pf0 aiTerms None (Some old_record) world_offline),
                 snd (fetch_operation pf0 aiTerms None (Some old_record) world_offline))"
    by simp
  from stored_record_frame [OF cdn refl t run] e t show ?thesis
    by (auto simp: old_record_def)
qed

section \<open>Properties of the cache lookup\<close>

text \<open>
  Claim C9 fails on the code for a record read back from storage. The worker fetches
  the preserve list, stores it, and starts again. Storage then holds a fresh record
  whose payload has one element, and memory holds nothing. The next call of
  \<^verbatim>\<open>retrieveRule\<close> makes no request, as the claim says, but the payload it returns
  is the empty one: \<^verbatim>\<open>loadRuleFromStorage\<close> normalizes the stored payload again,
  and the normalizer of the preserve list reads the entries of a payload, which are an
  object, as absent.
\<close>

theorem stored_preserve_list_comes_back_empty:
  "map_option data (storage_rules world_restarted preserveList) = Some preserve_payload
   \<and> map_option source (storage_rules world_restarted preserveList) = Some ''cdn''
   \<and> isRecordFresh (clock world_restarted (reads world_restarted))
        (storage_rules world_restarted preserveList)
   \<and> inMemoryRuleCache world_restarted preserveList = None
   \<and> new_events world_restarted (fst (retrieveRule pf0 preserveList False world_restarted)) = []
   \<and> map_option data (res_record (snd (retrieveRule pf0 preserveList False world_restarted)))
       = Some empty_preserve_payload
   \<and> empty_preserve_payload \<noteq> preserve_payload"
  by code_simp

text \<open>
  The parts of claim C9 that hold. A record is fresh exactly when it has a
  \<^verbatim>\<open>fetchedAt\<close> and its age is under six hours for the source \<^verbatim>\<open>cdn\<close>, under
  fifteen minutes for any other source.
\<close>

theorem freshness_by_source:
  "isRecordFresh now None = False
   \<and> isRecordFresh now (Some r)
       = (fetchedAt r \<noteq> 0
          \<and> now - fetchedAt r < (if source r = ''cdn'' then 21600000 else 900000))"
  by (simp add: isRecordFresh_def RULE_CACHE_TTL_MS_def FALLBACK_RETRY_MS_def Let_def)

text \<open>
  Without \<^verbatim>\<open>forceRefresh\<close>, a fresh record in memory is returned as it is: the call
  causes no event, so no request, and leaves both caches alone.
\<close>

theorem fresh_memory_hit:
  assumes "inMemoryRuleCache w c = Some r"
    and "isRecordFresh (clock w (reads w)) (Some r)"
  shows "\<exists>w'. retrieveRule pf c False w = (w', Inr r) \<and> new_events w w' = []
           \<and> inMemoryRuleCache w' = inMemoryRuleCache w \<and> storage_rules w' = storage_rules w"
  using assms
  by (auto simp: retrieveRule_def cache_lookup_def check_fresh_def isRecordFresh_def Let_def
      Date_now_def new_events_def split: if_splits)

theorem fresh_memory_hit_witness:
  "inMemoryRuleCache (fst (retrieveRule pf0 aiTerms False world_verified)) aiTerms
     = res_record (snd (retrieveRule pf0 aiTerms False world_verified))
   \<and> map_option data (res_record (snd (retrieveRule pf0 aiTerms False world_verified)))
       = Some terms_json
   \<and> snd (retrieveRule pf0 aiTerms False (fst (retrieveRule pf0 aiTerms False world_verified)))
       = snd (retrieveRule pf0 aiTerms False world_verified)"
proof -
  let ?w = "fst (retrieveRule pf0 aiTerms False world_verified)"
  let ?r = "\<lparr>category = aiTerms, data = terms_json, source = ''cdn'',
             url = JStr ''https://cdn.example/ai_terms.json'', fetchedAt = 1000,
             lastError = None, lastFailureAt = None, verified = Some True,
             hash = Some ''ab01''\<rparr>"
  have r: "snd (retrieveRule pf0 aiTerms False world_verified) = Inr ?r" by code_simp
  have m: "inMemoryRuleCache ?w aiTerms = Some ?r" by code_simp
  have f: "isRecordFresh (clock ?w (reads ?w)) (Some ?r)" by code_simp
  from fresh_memory_hit [OF m f, of pf0]
  have "snd (retrieveRule pf0 aiTerms False ?w) = Inr ?r"
    by auto
  with r m show ?thesis
    by (simp add: res_record_def)
qed

text \<open>
  Without \<^verbatim>\<open>forceRefresh\<close>, with nothing in memory and a fresh record in storage
  whose payload normalizes, no request is made: the call logs what the normalizer logs,
  puts in memory and returns the stored record with its payload normalized again.
\<close>

theorem fresh_storage_hit:
  assumes "inMemoryRuleCache w c = None"
    and "storage_rules w c = Some r" and "truthy (data r)"
    and "normalizeRuleData (toUpperCase pf) c (data r) = (logs, Inr d)"
    and "isRecordFresh (clock w (reads w)) (Some r)"
  shows "\<exists>w'. retrieveRule pf c False w = (w', Inr (r\<lparr>category := c, data := d\<rparr>))
           \<and> new_events w w' = map Log logs
           \<and> inMemoryRuleCache w' c = Some (r\<lparr>category := c, data := d\<rparr>)
           \<and> storage_rules w' = storage_rules w"
  using assms
  by (auto simp: retrieveRule_def cache_lookup_def check_fresh_def isRecordFresh_def Let_def
      loadRuleFromStorage_def Date_now_def new_events_def emit_def set_memory_def
      split: if_splits)

theorem fresh_storage_hit_witness:
  "inMemoryRuleCache (restarted (fst (retrieveRule pf0 aiTerms False world_verified))) aiTerms = None
   \<and> map_option data
        (storage_rules (restarted (fst (retrieveRule pf0 aiTerms False world_verified))) aiTerms)
       = Some terms_json
   \<and> normalizeRuleData (toUpperCase pf0) aiTerms terms_json = ([], Inr terms_json)
   \<and> map_option data
        (res_record (snd (retrieveRule pf0 aiTerms False
           (restarted (fst (retrieveRule pf0 aiTerms False world_verified))))))
       = Some terms_json"
proof -
  let ?w = "restarted (fst (retrieveRule pf0 aiTerms False world_verified))"
  let ?r = "\<lparr>category = aiTerms, data = terms_json, source = ''cdn'',
             url = JStr ''https://cdn.example/ai_terms.json'', fetchedAt = 1000,
             lastError = None, lastFailureAt = None, verified = Some True,
             hash = Some ''ab01''\<rparr>"
  have m: "inMemoryRuleCache ?w aiTerms = None" by code_simp
  have s: "storage_rules ?w aiTerms = Some ?r" by code_simp
  have t: "truthy (data ?r)" by code_simp
  have n: "normalizeRuleData (toUpperCase pf0) aiTerms (data ?r) = ([], Inr terms_json)"
    by code_simp
  have f: "isRecordFresh (clock ?w (reads ?w)) (Some ?r)" by code_simp
  from fresh_storage_hit [OF m s t n f]
  have "snd (retrieveRule pf0 aiTerms False ?w) = Inr (?r\<lparr>category := aiTerms, data := terms_json\<rparr>)"
    by auto
  with m s n show ?thesis
    by (simp add: res_record_def)
qed


section \<open>Properties of concurrent calls\<close>

lemma map_inv_init: "map_inv init_sys"
  by (simp add: map_inv_def init_sys_def)

lemma map_inv_call:
  assumes "map_inv s"
  shows "map_inv (s\<lparr>tasks := tasks s @ [if b then Returned else Loading c f]\<rparr>)"
  using assms unfolding map_inv_def
  by (auto simp: nth_append less_Suc_eq split: if_splits)

lemma map_inv_retask:
  assumes inv: "map_inv s" and i: "i < length (tasks s)"
    and t: "\<And>c p. t \<noteq> Owner c p"
  shows "map_inv (s\<lparr>tasks := (tasks s)[i := t]\<rparr>)"
  using inv i t unfolding map_inv_def
  by (simp add: nth_list_update)

lemma map_inv_start:
  assumes inv: "map_inv s" and i: "i < length (tasks s)" and idle: "pendingMap s c = None"
  shows "map_inv (s\<lparr>ops := ops s @ [(c, InFlight)],
                    pendingMap := (pendingMap s)(c \<mapsto> length (ops s)),
                    tasks := (tasks s)[i := Owner c (length (ops s))]\<rparr>)"
proof -
  have no_op: "\<And>p. p < length (ops s) \<Longrightarrow> ops s ! p \<noteq> (c, InFlight)"
    using inv idle unfolding map_inv_def by force
  have no_owner: "\<And>j p. j < length (tasks s) \<Longrightarrow> tasks s ! j \<noteq> Owner c p"
    using inv idle unfolding map_inv_def by force
  show ?thesis
    unfolding map_inv_def
  proof (intro conjI allI impI)
    fix p c'
    assume "p < length (ops (s\<lparr>ops := ops s @ [(c, InFlight)],
                    pendingMap := (pendingMap s)(c \<mapsto> length (ops s)),
                    tasks := (tasks s)[i := Owner c (length (ops s))]\<rparr>))
          \<and> ops (s\<lparr>ops := ops s @ [(c, InFlight)],
                    pendingMap := (pendingMap s)(c \<mapsto> length (ops s)),
                    tasks := (tasks s)[i := Owner c (length (ops s))]\<rparr>) ! p = (c', InFlight)"
    then show "pendingMap (s\<lparr>ops := ops s @ [(c, InFlight)],
                    pendingMap := (pendingMap s)(c \<mapsto> length (ops s)),
                    tasks := (tasks s)[i := Owner c (length (ops s))]\<rparr>) c' = Some p"
      using inv no_op unfolding map_inv_def
      by (auto simp: nth_append less_Suc_eq split: if_splits)
  next
    fix j c' p
    assume "j < length (tasks (s\<lparr>ops := ops s @ [(c, InFlight)],
                    pendingMap := (pendingMap s)(c \<mapsto> length (ops s)),
                    tasks := (tasks s)[i := Owner c (length (ops s))]\<rparr>))
          \<and> tasks (s\<lparr>ops := ops s @ [(c, InFlight)],
                    pendingMap := (pendingMap s)(c \<mapsto> length (ops s)),
                    tasks := (tasks s)[i := Owner c (length (ops s))]\<rparr>) ! j = Owner c' p"
    then show "pendingMap (s\<lparr>ops := ops s @ [(c, InFlight)],
                    pendingMap := (pendingMap s)(c \<mapsto> length (ops s)),
                    tasks := (tasks s)[i := Owner c (length (ops s))]\<rparr>) c' = Some p"
      using inv no_owner i unfolding map_inv_def
      by (auto simp: nth_list_update split: if_splits)
  next
    fix j k c' p q
    assume "j < length (tasks (s\<lparr>ops := ops s @ [(c, InFlight)],
                    pendingMap := (pendingMap s)(c \<mapsto> length (ops s)),
                    tasks := (tasks s)[i := Owner c (length (ops s))]\<rparr>))
          \<and> k < length (tasks (s\<lparr>ops := ops s @ [(c, InFlight)],
                    pendingMap := (pendingMap s)(c \<mapsto> length (ops s)),
                    tasks := (tasks s)[i := Owner c (length (ops s))]\<rparr>))
          \<and> tasks (s\<lparr>ops := ops s @ [(c, InFlight)],
                    pendingMap := (pendingMap s)(c \<mapsto> length (ops s)),
                    tasks := (tasks s)[i := Owner c (length (ops s))]\<rparr>) ! j = Owner c' p
          \<and> tasks (s\<lparr>ops := ops s @ [(c, InFlight)],
                    pendingMap := (pendingMap s)(c \<mapsto> length (ops s)),
                    tasks := (tasks s)[i := Owner c (length (ops s))]\<rparr>) ! k = Owner c' q"
    then show "j = k"
      using inv no_owner i unfolding map_inv_def
      by (auto simp: nth_list_update split: if_splits)
  qed
qed

lemma map_inv_settle:
  assumes inv: "map_inv s" and p: "p < length (ops s)"
  shows "map_inv (s\<lparr>ops := (ops s)[p := (fst (ops s ! p), Settled b)]\<rparr>)"
  using inv p unfolding map_inv_def
  by (auto simp: nth_list_update split: if_splits)

lemma map_inv_finish:
  assumes inv: "map_inv s" and i: "i < length (tasks s)" and own: "tasks s ! i = Owner c p"
    and settled: "is_settled s p"
  shows "map_inv (s\<lparr>pendingMap := (pendingMap s)(c := None),
                    tasks := (tasks s)[i := Returned]\<rparr>)"
proof -
  have entry: "pendingMap s c = Some p"
    using inv i own unfolding map_inv_def by blast
  have no_op: "\<And>q. q < length (ops s) \<Longrightarrow> ops s ! q \<noteq> (c, InFlight)"
  proof
    fix q assume q: "q < length (ops s)" "ops s ! q = (c, InFlight)"
    then have "pendingMap s c = Some q"
      using inv unfolding map_inv_def by blast
    with entry have "q = p" by simp
    with q settled show False by (simp add: is_settled_def)
  qed
  have sole: "\<And>j q. j < length (tasks s) \<Longrightarrow> tasks s ! j = Owner c q \<Longrightarrow> j = i"
    using inv i own unfolding map_inv_def by blast
  show ?thesis
    unfolding map_inv_def
  proof (intro conjI allI impI)
    fix q c'
    assume "q < length (ops (s\<lparr>pendingMap := (pendingMap s)(c := None),
                    tasks := (tasks s)[i := Returned]\<rparr>))
          \<and> ops (s\<lparr>pendingMap := (pendingMap s)(c := None),
                    tasks := (tasks s)[i := Returned]\<rparr>) ! q = (c', InFlight)"
    then show "pendingMap (s\<lparr>pendingMap := (pendingMap s)(c := None),
                    tasks := (tasks s)[i := Returned]\<rparr>) c' = Some q"
      using inv no_op unfolding map_inv_def by auto
  next
    fix j c' q
    assume "j < length (tasks (s\<lparr>pendingMap := (pendingMap s)(c := None),
                    tasks := (tasks s)[i := Returned]\<rparr>))
          \<and> tasks (s\<lparr>pendingMap := (pendingMap s)(c := None),
                    tasks := (tasks s)[i := Returned]\<rparr>) ! j = Owner c' q"
    then show "pendingMap (s\<lparr>pendingMap := (pendingMap s)(c := None),
                    tasks := (tasks s)[i := Returned]\<rparr>) c' = Some q"
      using inv sole i unfolding map_inv_def
      by (auto simp: nth_list_update split: if_splits)
  next
    fix j k c' q r
    assume "j < length (tasks (s\<lparr>pendingMap := (pendingMap s)(c := None),
                    tasks := (tasks s)[i := Returned]\<rparr>))
          \<and> k < length (tasks (s\<lparr>pendingMap := (pendingMap s)(c := None),
                    tasks := (tasks s)[i := Returned]\<rparr>))
          \<and> tasks (s\<lparr>pendingMap := (pendingMap s)(c := None),
                    tasks := (tasks s)[i := Returned]\<rparr>) ! j = Owner c' q
          \<and> tasks (s\<lparr>pendingMap := (pendingMap s)(c := None),
                    tasks := (tasks s)[i := Returned]\<rparr>) ! k = Owner c' r"
    then show "j = k"
      using inv i unfolding map_inv_def
      by (simp add: nth_list_update split: if_splits)
  qed
qed

lemma map_inv_step:
  assumes inv: "map_inv s" and st: "step a s = Some s'"
  shows "map_inv s'"
proof (cases a)
  case (Call c f b)
  with st inv show ?thesis
    using map_inv_call [of s "\<not> f \<and> b" c f] by auto
next
  case (StorageLoaded i b)
  with st have i: "i < length (tasks s)"
    by (auto split: if_splits)
  from st StorageLoaded i obtain c f where load: "tasks s ! i = Loading c f"
    by (auto split: task.splits)
  show ?thesis
  proof (cases "\<not> f \<and> b")
    case True
    with st StorageLoaded i load have "s' = s\<lparr>tasks := (tasks s)[i := Returned]\<rparr>"
      by auto
    then show ?thesis using map_inv_retask [OF inv i, of Returned] by simp
  next
    case False
    show ?thesis
    proof (cases "pendingMap s c")
      case (Some p)
      with st StorageLoaded i load False have "s' = s\<lparr>tasks := (tasks s)[i := Joined c p]\<rparr>"
        by auto
      then show ?thesis using map_inv_retask [OF inv i, of "Joined c p"] by simp
    next
      case None
      with st StorageLoaded i load False
      have "s' = s\<lparr>ops := ops s @ [(c, InFlight)],
                    pendingMap := (pendingMap s)(c \<mapsto> length (ops s)),
                    tasks := (tasks s)[i := Owner c (length (ops s))]\<rparr>"
        by (auto simp: Let_def)
      then show ?thesis using map_inv_start [OF inv i None] by simp
    qed
  qed
next
  case (Settle p b)
  with st inv show ?thesis
    using map_inv_settle [of s p b] by (auto split: if_splits)
next
  case (Resume i)
  with st have i: "i < length (tasks s)"
    by (auto split: if_splits)
  show ?thesis
  proof (cases "tasks s ! i")
    case (Owner c p)
    with st Resume i have "is_settled s p"
      and "s' = s\<lparr>pendingMap := (pendingMap s)(c := None), tasks := (tasks s)[i := Returned]\<rparr>"
      by (auto split: if_splits)
    then show ?thesis using map_inv_finish [OF inv i Owner] by simp
  next
    case (Joined c p)
    with st Resume i have "s' = s\<lparr>tasks := (tasks s)[i := Returned]\<rparr>"
      by (auto split: if_splits)
    then show ?thesis using map_inv_retask [OF inv i, of Returned] by simp
  qed (use st Resume i in auto)
qed

lemma map_inv_run:
  "map_inv s \<Longrightarrow> run acts s = Some s' \<Longrightarrow> map_inv s'"
proof (induction acts arbitrary: s)
  case Nil
  then show ?case by simp
next
  case (Cons a acts)
  then show ?case
    by (auto split: option.splits dest: map_inv_step)
qed

lemma in_flight_entry:
  assumes "map_inv s" "p \<in> set (in_flight s c)"
  shows "pendingMap s c = Some p"
  using assms by (auto simp: map_inv_def in_flight_def)

lemma in_flight_at_most_one:
  assumes inv: "map_inv s"
  shows "length (in_flight s c) \<le> 1"
proof -
  have d: "distinct (in_flight s c)"
    by (simp add: in_flight_def)
  have "set (in_flight s c) \<subseteq> (case pendingMap s c of None \<Rightarrow> {} | Some p \<Rightarrow> {p})"
    using in_flight_entry [OF inv] by (fastforce split: option.splits)
  then have "card (set (in_flight s c)) \<le> 1"
    by (cases "pendingMap s c") (auto dest: card_mono [rotated])
  with d show ?thesis
    by (simp add: distinct_card)
qed


text \<open>
  Claim C8, as stated, fails: two calls for the same category, made one after the other
  with no fresh record for either, can start two operations. The second call is still
  waiting for \<^verbatim>\<open>loadRuleFromStorage\<close> when the operation of the first rejects and the
  first call removes the entry; the second call then finds no entry and starts a fetch
  of its own.
\<close>

theorem late_call_starts_second_fetch_counterexample:
  "map_option tasks (run (take 3 late_call) init_sys)
     = Some [Owner killList 0, Loading killList False]
   \<and> map_option ops (run (take 3 late_call) init_sys) = Some [(killList, InFlight)]
   \<and> map_option tasks (run late_call init_sys) = Some [Returned, Owner killList 1]
   \<and> map_option ops (run late_call init_sys)
       = Some [(killList, Settled False), (killList, InFlight)]"
  by code_simp

text \<open>
  Claim C8, amended. In every state that calls of \<^verbatim>\<open>retrieveRule\<close> can reach, a
  category has at most one operation in flight, and that operation is the one the
  in-flight map holds for the category. A call that comes back from storage without a
  fresh record while an operation for its category is in flight starts nothing: it
  waits for that operation. The entry stays in the map as long as the call that started
  the operation waits for it; that call resumes only when the operation has settled,
  resolved or rejected, and it then removes the entry, after which nothing is in flight
  for the category.
\<close>

theorem one_operation_in_flight:
  assumes reach: "run acts init_sys = Some s"
  shows "length (in_flight s c) \<le> 1
         \<and> (\<forall>p\<in>set (in_flight s c). pendingMap s c = Some p)
         \<and> (\<forall>i f b p. i < length (tasks s) \<and> tasks s ! i = Loading c f \<and> \<not> (\<not> f \<and> b)
                \<and> p \<in> set (in_flight s c)
              \<longrightarrow> step (StorageLoaded i b) s = Some (s\<lparr>tasks := (tasks s)[i := Joined c p]\<rparr>))
         \<and> (\<forall>i p. i < length (tasks s) \<and> tasks s ! i = Owner c p \<longrightarrow> pendingMap s c = Some p)
         \<and> (\<forall>i p s'. i < length (tasks s) \<and> tasks s ! i = Owner c p
                \<and> step (Resume i) s = Some s'
              \<longrightarrow> is_settled s p \<and> pendingMap s' c = None \<and> in_flight s' c = []
                  \<and> ops s' = ops s)"
proof -
  have inv: "map_inv s"
    by (rule map_inv_run [OF map_inv_init reach])
  have a: "length (in_flight s c) \<le> 1"
    by (rule in_flight_at_most_one [OF inv])
  have b: "\<forall>p\<in>set (in_flight s c). pendingMap s c = Some p"
    using in_flight_entry [OF inv] by blast
  have j: "\<forall>i f b p. i < length (tasks s) \<and> tasks s ! i = Loading c f \<and> \<not> (\<not> f \<and> b)
                \<and> p \<in> set (in_flight s c)
              \<longrightarrow> step (StorageLoaded i b) s = Some (s\<lparr>tasks := (tasks s)[i := Joined c p]\<rparr>)"
    using b by auto
  have o: "\<forall>i p. i < length (tasks s) \<and> tasks s ! i = Owner c p \<longrightarrow> pendingMap s c = Some p"
    using inv unfolding map_inv_def by blast
  have r: "is_settled s p \<and> pendingMap s' c = None \<and> in_flight s' c = [] \<and> ops s' = ops s"
    if h: "i < length (tasks s) \<and> tasks s ! i = Owner c p \<and> step (Resume i) s = Some s'"
    for i p s'
  proof -
    from h have settled: "is_settled s p"
      and s': "s' = s\<lparr>pendingMap := (pendingMap s)(c := None), tasks := (tasks s)[i := Returned]\<rparr>"
      by (auto split: if_splits)
    have inv': "map_inv s'"
      using map_inv_step [OF inv] h by blast
    have "pendingMap s' c = None" "ops s' = ops s"
      by (simp_all add: s')
    moreover have "in_flight s' c = []"
    proof (rule ccontr)
      assume "in_flight s' c \<noteq> []"
      then obtain q where "q \<in> set (in_flight s' c)"
        by (cases "in_flight s' c") auto
      then have "pendingMap s' c = Some q"
        by (rule in_flight_entry [OF inv'])
      then show False by (simp add: s')
    qed
    ultimately show ?thesis using settled by simp
  qed
  from a b j o r show ?thesis
    by blast
qed

theorem one_operation_in_flight_witness:
  "(case run (take 3 two_calls) init_sys of
      None \<Rightarrow> False
    | Some s \<Rightarrow>
        in_flight s killList = [0]
        \<and> tasks s = [Owner killList 0, Loading killList False]
        \<and> map_option tasks (step (StorageLoaded 1 False) s)
            = Some [Owner killList 0, Joined killList 0]
        \<and> map_option ops (step (StorageLoaded 1 False) s) = Some [(killList, InFlight)])
   \<and> (case run two_calls init_sys of
         None \<Rightarrow> False
       | Some s \<Rightarrow>
           ops s = [(killList, Settled True)] \<and> tasks s = [Returned, Returned]
           \<and> pendingMap s killList = None \<and> started s killList = 1
           \<and> length (in_flight s killList) \<le> 1)"
proof -
  have e1: "case run (take 3 two_calls) init_sys of
              None \<Rightarrow> False
            | Some s \<Rightarrow> in_flight s killList = [0]
                        \<and> tasks s = [Owner killList 0, Loading killList False]
                        \<and> ops s = [(killList, InFlight)]"
    by code_simp
  then obtain s3 where s3: "run (take 3 two_calls) init_sys = Some s3"
    and f3: "in_flight s3 killList = [0]" "tasks s3 = [Owner killList 0, Loading killList False]"
      "ops s3 = [(killList, InFlight)]"
    by (cases "run (take 3 two_calls) init_sys") auto
  have pre: "1 < length (tasks s3) \<and> tasks s3 ! 1 = Loading killList False
             \<and> \<not> (\<not> False \<and> False) \<and> 0 \<in> set (in_flight s3 killList)"
    using f3 by simp
  from one_operation_in_flight [OF s3, of killList]
  have "\<forall>i f b p. i < length (tasks s3) \<and> tasks s3 ! i = Loading killList f \<and> \<not> (\<not> f \<and> b)
                \<and> p \<in> set (in_flight s3 killList)
              \<longrightarrow> step (StorageLoaded i b) s3 = Some (s3\<lparr>tasks := (tasks s3)[i := Joined killList p]\<rparr>)"
    by blast
  from this [rule_format, OF pre]
  have "step (StorageLoaded 1 False) s3
             = Some (s3\<lparr>tasks := (tasks s3)[1 := Joined killList 0]\<rparr>)" .
  then have p1: "map_option tasks (step (StorageLoaded 1 False) s3)
            = Some [Owner killList 0, Joined killList 0]"
    "map_option ops (step (StorageLoaded 1 False) s3) = Some [(killList, InFlight)]"
    using f3 by simp_all
  have e2: "case run two_calls init_sys of
              None \<Rightarrow> False
            | Some s \<Rightarrow> ops s = [(killList, Settled True)] \<and> tasks s = [Returned, Returned]
                        \<and> pendingMap s killList = None \<and> started s killList = 1"
    by code_simp
  then obtain s7 where s7: "run two_calls init_sys = Some s7"
    and f7: "ops s7 = [(killList, Settled True)]" "tasks s7 = [Returned, Returned]"
      "pendingMap s7 killList = None" "started s7 killList = 1"
    by (cases "run two_calls init_sys") auto
  from one_operation_in_flight [OF s7, of killList]
  have "length (in_flight s7 killList) \<le> 1"
    by blast
  with s3 f3 p1 s7 f7 show ?thesis
    by simp
qed


end
